theory Spec2Isabelle
  imports Complex_Main "HOL-Library.Multiset"
begin

section \<open>Normalizer: words.Norm\<close>

text \<open>
  A Go string is read by \<^verbatim>\<open>strings.FieldsFunc\<close> rune by rune, so a phrase is modelled as
  the list of its runes, and a keyword likewise. The rune classification of package
  \<^verbatim>\<open>unicode\<close> and the Snowball English stemmer (\<^verbatim>\<open>english.Stem(word, true)\<close>,
  \<^verbatim>\<open>english.IsStopWord\<close>) are third-party code outside the repository: they are the
  four fields of a library record that \<open>Norm\<close> takes as a parameter.
\<close>

record 'r textlib =
  IsLetter :: "'r \<Rightarrow> bool"
  IsNumber :: "'r \<Rightarrow> bool"
  Stem :: "'r list \<Rightarrow> 'r list"
  IsStopWord :: "'r list \<Rightarrow> bool"

text \<open>
  \<^verbatim>\<open>strings.FieldsFunc(s, f)\<close>: the maximal runs of runes that do not satisfy \<open>f\<close>, in order.
  The second argument is the field being scanned (\<open>None\<close> when the scan is between fields).
\<close>

fun FieldsFunc_from :: "('r \<Rightarrow> bool) \<Rightarrow> 'r list option \<Rightarrow> 'r list \<Rightarrow> 'r list list" where
  "FieldsFunc_from f None [] = []"
| "FieldsFunc_from f (Some w) [] = [w]"
| "FieldsFunc_from f None (c # cs) =
     (if f c then FieldsFunc_from f None cs else FieldsFunc_from f (Some [c]) cs)"
| "FieldsFunc_from f (Some w) (c # cs) =
     (if f c then w # FieldsFunc_from f None cs else FieldsFunc_from f (Some (w @ [c])) cs)"

definition FieldsFunc :: "('r \<Rightarrow> bool) \<Rightarrow> 'r list \<Rightarrow> 'r list list" where
  "FieldsFunc f s = FieldsFunc_from f None s"

text \<open>The separator test of \<open>Norm\<close>: \<^verbatim>\<open>!unicode.IsLetter(c) && !unicode.IsNumber(c)\<close>.\<close>

definition isSep :: "'r textlib \<Rightarrow> 'r \<Rightarrow> bool" where
  "isSep L c = (\<not> IsLetter L c \<and> \<not> IsNumber L c)"

text \<open>
  The loop of \<open>Norm\<close> over the fields, with its two variables: the slice \<open>keywords\<close> and
  the map \<open>dict\<close> (a \<^verbatim>\<open>map[string]bool\<close>, whose missing keys read as false).
\<close>

fun Norm_loop :: "'r textlib \<Rightarrow> 'r list list \<Rightarrow> ('r list \<Rightarrow> bool) \<Rightarrow> 'r list list \<Rightarrow> 'r list list" where
  "Norm_loop L keywords dict [] = keywords"
| "Norm_loop L keywords dict (word # rest) =
     (let stemmed = Stem L word in
      if \<not> IsStopWord L stemmed \<and> \<not> dict stemmed
      then Norm_loop L (keywords @ [stemmed]) (dict(stemmed := True)) rest
      else Norm_loop L keywords dict rest)"

definition Norm :: "'r textlib \<Rightarrow> 'r list \<Rightarrow> 'r list list" where
  "Norm L phrase = Norm_loop L [] (\<lambda>_. False) (FieldsFunc (isSep L) phrase)"

text \<open>
  The stemmed, stop-word-free tokens of a phrase in the order of the phrase, and the
  sublist of a list that keeps the first occurrence of every element.
\<close>

definition stemmed_tokens :: "'r textlib \<Rightarrow> 'r list \<Rightarrow> 'r list list" where
  "stemmed_tokens L phrase =
     filter (\<lambda>w. \<not> IsStopWord L w) (map (Stem L) (FieldsFunc (isSep L) phrase))"

fun first_occurrences :: "'a list \<Rightarrow> 'a list \<Rightarrow> 'a list" where
  "first_occurrences seen [] = []"
| "first_occurrences seen (x # xs) =
     (if x \<in> set seen then first_occurrences seen xs
      else x # first_occurrences (seen @ [x]) xs)"

text \<open>\<^verbatim>\<open>strings.Join(ws, sep)\<close> for a one-rune separator.\<close>

fun Join :: "'r list list \<Rightarrow> 'r \<Rightarrow> 'r list" where
  "Join [] sp = []"
| "Join [w] sp = w"
| "Join (w # v # ws) sp = w @ sp # Join (v # ws) sp"


subsection \<open>The library on the words of the scenarios\<close>

text \<open>
  The library restricted to what the concrete scenarios need. On ASCII,
  \<^verbatim>\<open>unicode.IsLetter\<close> holds of \<^verbatim>\<open>A-Z\<close> and \<^verbatim>\<open>a-z\<close> and \<^verbatim>\<open>unicode.IsNumber\<close> of \<^verbatim>\<open>0-9\<close>.
  The stemmer is given as a table of the values the Snowball English (Porter2) stemmer
  takes on the words of the scenarios (step 1b deletes \<^verbatim>\<open>ing\<close> from \<^verbatim>\<open>lensing\<close>, step 1a
  deletes the final \<^verbatim>\<open>s\<close> of \<^verbatim>\<open>lens\<close>; the others are the expectations of
  \<^verbatim>\<open>words_test.go\<close>); a word outside the table is returned unchanged. Only the listed
  stop-words are classified.
\<close>

definition ascii_IsLetter :: "char \<Rightarrow> bool" where
  "ascii_IsLetter c =
     (let n = (of_char c :: nat) in (65 \<le> n \<and> n \<le> 90) \<or> (97 \<le> n \<and> n \<le> 122))"

definition ascii_IsNumber :: "char \<Rightarrow> bool" where
  "ascii_IsNumber c = (let n = (of_char c :: nat) in 48 \<le> n \<and> n \<le> 57)"

definition Stem_table :: "(string \<times> string) list" where
  "Stem_table =
     [(''I'', ''i''), (''follow'', ''follow''), (''followers'', ''follow''),
      (''Moscow'', ''moscow''), (''123'', ''123''), (''check'', ''check''), (''it'', ''it''),
      (''or'', ''or''), (''man'', ''man''), (''that'', ''that''),
      (''difficult'', ''difficult''), (''heck'', ''heck''),
      (''lensing'', ''lens''), (''lens'', ''len''), (''len'', ''len'')]"

definition Stem_scenarios :: "string \<Rightarrow> string" where
  "Stem_scenarios w = (case map_of Stem_table w of Some s \<Rightarrow> s | None \<Rightarrow> w)"

definition IsStopWord_scenarios :: "string \<Rightarrow> bool" where
  "IsStopWord_scenarios w = (w \<in> set [''i'', ''it'', ''or'', ''that'', ''is''])"

definition english_scenarios :: "char textlib" where
  "english_scenarios =
     \<lparr>IsLetter = ascii_IsLetter, IsNumber = ascii_IsNumber,
      Stem = Stem_scenarios, IsStopWord = IsStopWord_scenarios\<rparr>"

section \<open>Errors and sorting\<close>

text \<open>
  Go \<^verbatim>\<open>error\<close> values: the sentinels of the \<^verbatim>\<open>core\<close> packages, any other error (by its
  message), and \<^verbatim>\<open>fmt.Errorf("...: %w", err)\<close>, which wraps an error under a message.
  \<open>Panic\<close> stands for a run-time panic; it is not an error value a caller can inspect.
\<close>

datatype error =
    ErrBadArguments
  | ErrAlreadyExists
  | ErrNotFound
  | ErrServiceUnavailable
  | ErrOther string
  | Wrap string error
  | Panic string

text \<open>\<^verbatim>\<open>errors.Is(err, target)\<close> for a sentinel target: walks the chain of wrapped errors.\<close>

fun errors_Is :: "error \<Rightarrow> error \<Rightarrow> bool" where
  "errors_Is (Wrap msg err) target = (Wrap msg err = target \<or> errors_Is err target)"
| "errors_Is err target = (err = target)"

text \<open>
  The 64-bit two's-complement value of an integer: what an \<^verbatim>\<open>int64\<close> operation whose
  mathematical result is \<open>x\<close> leaves in the variable.
\<close>

definition int64 :: "int \<Rightarrow> int" where
  "int64 x = (x + 2 ^ 63) mod 2 ^ 64 - 2 ^ 63"

text \<open>
  \<^verbatim>\<open>sort.Slice(x, less)\<close> belongs to the Go standard library and is not stable. The
  searcher takes the sorting procedure as a parameter; what the library promises of its
  result \<open>ys\<close> on the input \<open>xs\<close> is that \<open>ys\<close> is a rearrangement of \<open>xs\<close> in which no
  element is less than an earlier one. The comparison closures of the searcher read
  the two elements at the given indices, so the comparison is a relation \<open>lt\<close> on elements.
\<close>

definition sort_Slice_post :: "('a \<Rightarrow> 'a \<Rightarrow> bool) \<Rightarrow> 'a list \<Rightarrow> 'a list \<Rightarrow> bool" where
  "sort_Slice_post lt xs ys = (mset ys = mset xs \<and> sorted_wrt (\<lambda>a b. \<not> lt b a) ys)"

text \<open>
  One procedure that meets the promise: insertion sort, which is what the library runs
  on slices of at most twelve elements. Each element moves left while it is less than
  its left neighbour; the sorted prefix is kept reversed.
\<close>

fun insert_left :: "('a \<Rightarrow> 'a \<Rightarrow> bool) \<Rightarrow> 'a \<Rightarrow> 'a list \<Rightarrow> 'a list" where
  "insert_left lt x [] = [x]"
| "insert_left lt x (y # ys) = (if lt x y then y # insert_left lt x ys else x # y # ys)"

definition insertionSort :: "('a \<Rightarrow> 'a \<Rightarrow> bool) \<Rightarrow> 'a list \<Rightarrow> 'a list" where
  "insertionSort lt xs = rev (fold (insert_left lt) xs [])"

section \<open>Searcher: core.Service of the search service\<close>

record Comic =
  ID :: int
  URL :: string

text \<open>
  \<^verbatim>\<open>ComicInfo\<close> and \<^verbatim>\<open>comicRank\<close> embed \<^verbatim>\<open>Comic\<close>: they are extensions of the record,
  and \<open>Comic_of\<close> is the embedded value (\<^verbatim>\<open>comic.Comic\<close>).
\<close>

record ComicInfo = Comic +
  Words :: "string list"

record comicRank = Comic +
  matched :: int
  total :: int

definition Comic_of :: "'a Comic_scheme \<Rightarrow> Comic" where
  "Comic_of c = \<lparr>ID = ID c, URL = URL c\<rparr>"

text \<open>The two interfaces the service depends on.\<close>

record DB =
  GetAllComicsInfo :: "error + ComicInfo list"
  GetComicsByIds :: "int list \<Rightarrow> error + Comic list"

record SearchService =
  db :: DB
  words_Norm :: "string \<Rightarrow> error + string list"
  index :: "string \<Rightarrow> int list"

text \<open>
  The Postgres adapter over a \<^verbatim>\<open>comics\<close> table, given as the list of its rows in the order
  a scan yields them: \<^verbatim>\<open>SELECT id, url, words FROM comics\<close> and
  \<^verbatim>\<open>SELECT id, url FROM comics WHERE id = ANY($1)\<close>. A failing connection is another
  value of \<open>DB\<close>.
\<close>

definition pg_DB :: "ComicInfo list \<Rightarrow> DB" where
  "pg_DB table =
     \<lparr>GetAllComicsInfo = Inr table,
      GetComicsByIds = (\<lambda>ids. Inr (map Comic_of (filter (\<lambda>row. ID row \<in> set ids) table)))\<rparr>"

subsection \<open>Search and rankedSearch\<close>

text \<open>The inner loop of \<open>rankedSearch\<close>: \<^verbatim>\<open>matched++\<close> for every word found in the set.\<close>

fun matched_loop :: "(string \<Rightarrow> bool) \<Rightarrow> int \<Rightarrow> string list \<Rightarrow> int" where
  "matched_loop setOfPhrase m [] = m"
| "matched_loop setOfPhrase m (word # rest) =
     matched_loop setOfPhrase (if setOfPhrase word then m + 1 else m) rest"

text \<open>The outer loop: the entries with \<open>matched \<noteq> 0\<close>, appended to \<open>comicsRanks\<close>.\<close>

fun ranks_loop :: "(string \<Rightarrow> bool) \<Rightarrow> comicRank list \<Rightarrow> ComicInfo list \<Rightarrow> comicRank list" where
  "ranks_loop setOfPhrase comicsRanks [] = comicsRanks"
| "ranks_loop setOfPhrase comicsRanks (comic # rest) =
     (let m = matched_loop setOfPhrase 0 (Words comic) in
      if m = 0 then ranks_loop setOfPhrase comicsRanks rest
      else ranks_loop setOfPhrase
             (comicsRanks @ [\<lparr>ID = ID comic, URL = URL comic, matched = m,
                               total = int (length (Words comic))\<rparr>]) rest)"

text \<open>
  The comparison closure given to \<^verbatim>\<open>sort.Slice\<close>. The two products are \<^verbatim>\<open>int64\<close>
  multiplications and wrap around.
\<close>

definition rank_less :: "comicRank \<Rightarrow> comicRank \<Rightarrow> bool" where
  "rank_less ri rj =
     (if matched ri \<noteq> matched rj then matched ri > matched rj
      else (let crossI = int64 (matched ri * total rj);
                crossJ = int64 (matched rj * total ri)
            in crossI > crossJ))"

text \<open>
  \<^verbatim>\<open>make([]Comic, limit)\<close> panics on a negative length; \<open>Search\<close> never calls with one.
\<close>

definition rankedSearch ::
  "((comicRank \<Rightarrow> comicRank \<Rightarrow> bool) \<Rightarrow> comicRank list \<Rightarrow> comicRank list)
   \<Rightarrow> ComicInfo list \<Rightarrow> (string \<Rightarrow> bool) \<Rightarrow> int \<Rightarrow> error + Comic list" where
  "rankedSearch sort_Slice comicsInfo setOfPhrase limit =
     (if length comicsInfo = 0 then Inr []
      else
        let comicsRanks = ranks_loop setOfPhrase [] comicsInfo in
        if length comicsRanks = 0 then Inr []
        else
          let sorted = sort_Slice rank_less comicsRanks;
              limit = min (int (length comicsRanks)) limit
          in if limit < 0 then Inl (Panic ''makeslice: len out of range'')
             else Inr (map Comic_of (take (nat limit) sorted)))"

text \<open>The set of keywords built by \<open>Search\<close>: a \<^verbatim>\<open>map[string]bool\<close>.\<close>

definition setOfPhrase_of :: "string list \<Rightarrow> string \<Rightarrow> bool" where
  "setOfPhrase_of keywords = fold (\<lambda>word m. m(word := True)) keywords (\<lambda>_. False)"

definition Search ::
  "((comicRank \<Rightarrow> comicRank \<Rightarrow> bool) \<Rightarrow> comicRank list \<Rightarrow> comicRank list)
   \<Rightarrow> SearchService \<Rightarrow> string \<Rightarrow> int \<Rightarrow> error + Comic list" where
  "Search sort_Slice s phrase limit =
     (if phrase = [] \<or> limit \<le> 0 then Inl ErrBadArguments
      else case words_Norm s phrase of
        Inl err \<Rightarrow> Inl (Wrap ''failed to normalized phrase'' err)
      | Inr keywords \<Rightarrow>
          (case GetAllComicsInfo (db s) of
             Inl err \<Rightarrow> Inl (Wrap ''failed to get all comics'' err)
           | Inr comicsInfo \<Rightarrow>
               rankedSearch sort_Slice comicsInfo (setOfPhrase_of keywords) limit))"

text \<open>
  What the ranking is stated against: the rank of an entry for a list of keywords (the
  number of its words that are keywords, and the number of its words), the ranks of the
  entries of a catalog that share a word with the keywords, in catalog order, and the
  order of the result: descending \<open>matched\<close>, ties by descending \<open>matched / total\<close>
  compared cross-multiplied.
\<close>

definition rank_of :: "string list \<Rightarrow> ComicInfo \<Rightarrow> comicRank" where
  "rank_of keywords comic =
     \<lparr>ID = ID comic, URL = URL comic,
      matched = int (length (filter (\<lambda>word. word \<in> set keywords) (Words comic))),
      total = int (length (Words comic))\<rparr>"

definition ranks_of :: "string list \<Rightarrow> ComicInfo list \<Rightarrow> comicRank list" where
  "ranks_of keywords catalog =
     map (rank_of keywords)
       (filter (\<lambda>comic. \<exists>word \<in> set (Words comic). word \<in> set keywords) catalog)"

definition ranks_before :: "comicRank \<Rightarrow> comicRank \<Rightarrow> bool" where
  "ranks_before a b =
     (matched a > matched b
      \<or> (matched a = matched b \<and> matched a * total b \<ge> matched b * total a))"

subsection \<open>ISearch\<close>

text \<open>
  The two nested loops of \<open>ISearch\<close> over the keywords and their posting lists, with the
  variables \<open>scores\<close> (a \<^verbatim>\<open>map[int64]int\<close>, a missing key reads as 0) and \<open>uniqueIDs\<close>.
\<close>

definition score :: "(int \<rightharpoonup> int) \<Rightarrow> int \<Rightarrow> int" where
  "score scores ident = (case scores ident of None \<Rightarrow> 0 | Some n \<Rightarrow> n)"

fun posting_loop :: "(int \<rightharpoonup> int) \<times> int list \<Rightarrow> int list \<Rightarrow> (int \<rightharpoonup> int) \<times> int list" where
  "posting_loop (scores, uniqueIDs) [] = (scores, uniqueIDs)"
| "posting_loop (scores, uniqueIDs) (ident # rest) =
     posting_loop
       (scores(ident \<mapsto> score scores ident + 1),
        if scores ident = None then uniqueIDs @ [ident] else uniqueIDs) rest"

fun keyword_loop ::
  "(string \<Rightarrow> int list) \<Rightarrow> (int \<rightharpoonup> int) \<times> int list \<Rightarrow> string list \<Rightarrow> (int \<rightharpoonup> int) \<times> int list" where
  "keyword_loop idx st [] = st"
| "keyword_loop idx st (keyword # rest) = keyword_loop idx (posting_loop st (idx keyword)) rest"

text \<open>The comparison closure given to \<^verbatim>\<open>sort.Slice\<close>: descending score.\<close>

definition score_less :: "(int \<rightharpoonup> int) \<Rightarrow> Comic \<Rightarrow> Comic \<Rightarrow> bool" where
  "score_less scores ci cj = (score scores (ID ci) > score scores (ID cj))"

definition ISearch ::
  "((Comic \<Rightarrow> Comic \<Rightarrow> bool) \<Rightarrow> Comic list \<Rightarrow> Comic list)
   \<Rightarrow> SearchService \<Rightarrow> string \<Rightarrow> int \<Rightarrow> error + Comic list" where
  "ISearch sort_Slice s phrase limit =
     (if phrase = [] \<or> limit \<le> 0 then Inl ErrBadArguments
      else case words_Norm s phrase of
        Inl err \<Rightarrow> Inl (Wrap ''failed to normalized phrase'' err)
      | Inr keywords \<Rightarrow>
          (let (scores, uniqueIDs) = keyword_loop (index s) (Map.empty, []) keywords in
           case GetComicsByIds (db s) uniqueIDs of
             Inl err \<Rightarrow> Inl (Wrap ''failed to get comics by comics ids'' err)
           | Inr comics \<Rightarrow>
               (let sorted = sort_Slice (score_less scores) comics;
                    limit = min (int (length comics)) limit
                in Inr (take (nat limit) sorted))))"

text \<open>
  The values \<open>ISearch\<close> holds after its loops and after the store lookup through the
  Postgres adapter.
\<close>

definition ISearch_scores :: "SearchService \<Rightarrow> string list \<Rightarrow> (int \<rightharpoonup> int)" where
  "ISearch_scores s kws = fst (keyword_loop (index s) (Map.empty, []) kws)"

definition ISearch_uniqueIDs :: "SearchService \<Rightarrow> string list \<Rightarrow> int list" where
  "ISearch_uniqueIDs s kws = snd (keyword_loop (index s) (Map.empty, []) kws)"

definition ISearch_comics :: "SearchService \<Rightarrow> string list \<Rightarrow> ComicInfo list \<Rightarrow> Comic list" where
  "ISearch_comics s kws table =
     map Comic_of (filter (\<lambda>row. ID row \<in> set (ISearch_uniqueIDs s kws)) table)"

subsection \<open>Scenario S4\<close>

text \<open>The catalog and the words service of scenario S4, as the repository's test sets them up.\<close>

definition catalog_S4 :: "ComicInfo list" where
  "catalog_S4 =
     [\<lparr>ID = 1, URL = ''url1'', Words = [''test'', ''phrase'']\<rparr>,
      \<lparr>ID = 2, URL = ''url2'', Words = [''test'', ''phrase'', ''unknown'']\<rparr>,
      \<lparr>ID = 3, URL = ''url3'', Words = [''test'']\<rparr>]"

definition service_S4 :: SearchService where
  "service_S4 =
     \<lparr>db = pg_DB catalog_S4,
      words_Norm = (\<lambda>phrase. Inr [''test'', ''phrase'', ''is'', ''unknown'']),
      index = (\<lambda>keyword. [])\<rparr>"

text \<open>The index that \<open>UpdateIndex\<close> builds from this catalog.\<close>

definition index_S4 :: "string \<Rightarrow> int list" where
  "index_S4 keyword =
     (if keyword = ''test'' then [1, 2, 3]
      else if keyword = ''phrase'' then [1, 2]
      else if keyword = ''unknown'' then [2]
      else [])"

section \<open>Updater: core.Service of the update service\<close>

datatype EventType = EventUpdate | EventReset

text \<open>\<^verbatim>\<open>core.Comic\<close> and \<^verbatim>\<open>core.XKCDInfo\<close> of the update service.\<close>

record Comic_upd =
  ID_upd :: int
  URL_upd :: string
  Words_upd :: "string list"

record XKCDInfo =
  ID_xkcd :: int
  URL_xkcd :: string
  SafeTitle :: string
  Title :: string
  Alt :: string
  Transcript :: string

text \<open>
  The four interfaces the service depends on (\<^verbatim>\<open>DB\<close>, \<^verbatim>\<open>XKCD\<close>, \<^verbatim>\<open>Words\<close>,
  \<^verbatim>\<open>Publisher\<close>), given by what each method returns, and one fact about the machine the
  service runs on: \<open>chan_limit\<close>, the largest capacity for which the machine has the memory
  to allocate the buffer of a channel of 8-byte elements.
\<close>

record UpdateService =
  db_IDs :: "error + int list"
  db_Add :: "Comic_upd list \<Rightarrow> error option"
  db_Drop :: "error option"
  xkcd_LastID :: "error + int"
  xkcd_Get :: "int \<Rightarrow> error + XKCDInfo"
  words_Norm_upd :: "string \<Rightarrow> error + string list"
  publisher_Publish :: "EventType \<Rightarrow> error option"
  chan_limit :: int

text \<open>
  What a call does besides returning: the calls it makes on the interfaces and the lines
  it logs, in order.
\<close>

datatype level = LevelDebug | LevelInfo | LevelWarn | LevelError

datatype call =
    Call_IDs
  | Call_LastID
  | Call_Get int
  | Call_Norm string
  | Call_Add "Comic_upd list"
  | Call_Drop
  | Call_Publish EventType
  | Log level string

fun published :: "call list \<Rightarrow> EventType list" where
  "published [] = []"
| "published (Call_Publish ev # cs) = ev # published cs"
| "published (c # cs) = published cs"

fun added :: "call list \<Rightarrow> Comic_upd list list" where
  "added [] = []"
| "added (Call_Add comics # cs) = comics # added cs"
| "added (c # cs) = added cs"

fun fetched :: "call list \<Rightarrow> int list" where
  "fetched [] = []"
| "fetched (Call_Get ident # cs) = ident # fetched cs"
| "fetched (c # cs) = fetched cs"

record outcome =
  ret :: "error option"
  trace :: "call list"
  flag :: bool

definition makeDescription :: "XKCDInfo \<Rightarrow> string" where
  "makeDescription info =
     Join [SafeTitle info, Title info, Transcript info, Alt info] CHR '' ''"

text \<open>
  One iteration of the loop of \<open>worker\<close>: the value sent on the \<open>results\<close> channel
  (\<open>None\<close> for \<^verbatim>\<open>nil\<close>) for a job, and the calls made for it.
\<close>

definition worker :: "UpdateService \<Rightarrow> int \<Rightarrow> Comic_upd option \<times> call list" where
  "worker s ident =
     (if ident = 404 then (Some \<lparr>ID_upd = ident, URL_upd = [], Words_upd = []\<rparr>, [])
      else case xkcd_Get s ident of
        Inl err \<Rightarrow>
          (None,
           [Call_Get ident,
            if errors_Is err ErrNotFound then Log LevelDebug ''comic not found''
            else Log LevelError ''failed to get XKCDInfo''])
      | Inr info \<Rightarrow>
          (case words_Norm_upd s (makeDescription info) of
             Inl err \<Rightarrow>
               (None,
                [Call_Get ident, Call_Norm (makeDescription info),
                 Log LevelError ''failed to normalize comic description''])
           | Inr keywords \<Rightarrow>
               (Some \<lparr>ID_upd = ID_xkcd info, URL_upd = URL_xkcd info, Words_upd = keywords\<rparr>,
                [Call_Get ident, Call_Norm (makeDescription info)])))"

text \<open>
  The ids submitted to the \<open>jobs\<close> channel: those of \<open>1..lastID\<close> that the map \<open>exists\<close>
  built from the stored ids does not hold.
\<close>

definition exists_of :: "int list \<Rightarrow> int \<Rightarrow> bool" where
  "exists_of IDs = fold (\<lambda>ident m. m(ident := True)) IDs (\<lambda>_. False)"

definition Update_jobs :: "int list \<Rightarrow> int \<Rightarrow> int list" where
  "Update_jobs IDs lastID = filter (\<lambda>ident. \<not> exists_of IDs ident) [1..lastID]"

text \<open>
  The workers run concurrently, so the results arrive in an order the code does not
  fix: \<open>arrival\<close> rearranges the list of results (one per job, in job order) into the
  order of arrival. \<open>Update_comics\<close> is the slice \<open>comics\<close> collected from the channel:
  the results that are not \<^verbatim>\<open>nil\<close>. In the trace, the calls of the workers are listed job
  after job. \<^verbatim>\<open>NewService\<close> refuses a concurrency below 1, and both channels have room for
  every job, so every job is processed and \<open>Update\<close> receives one result per job.
\<close>

definition Update_comics ::
  "(Comic_upd option list \<Rightarrow> Comic_upd option list) \<Rightarrow> UpdateService \<Rightarrow> int list \<Rightarrow> int
   \<Rightarrow> Comic_upd list" where
  "Update_comics arrival s IDs lastID =
     List.map_filter (\<lambda>r. r) (arrival (map (\<lambda>job. fst (worker s job)) (Update_jobs IDs lastID)))"

definition Update_workers_trace :: "UpdateService \<Rightarrow> int list \<Rightarrow> int \<Rightarrow> call list" where
  "Update_workers_trace s IDs lastID =
     concat (map (\<lambda>job. snd (worker s job)) (Update_jobs IDs lastID))"

text \<open>
  \<^verbatim>\<open>make(chan int64, lastID)\<close> and \<^verbatim>\<open>make(chan *Comic, lastID)\<close>: the runtime panics with
  ``makechan: size out of range'' when the size is negative or the buffer of 8-byte
  elements would not fit below its allocation limit less the channel header; that limit is
  at most \<open>2^48\<close> bytes and the header 96 bytes, so no size above \<open>makechan_max\<close> is ever
  accepted. A size the runtime accepts but the machine has no memory for ends the program
  with a fatal error. Either way the call ends before any job is submitted; both exits are
  shown as \<open>Panic\<close>. \<open>chans_made\<close> says that both channels are made.
\<close>

definition makechan_max :: int where
  "makechan_max = (2 ^ 48 - 96) div 8"

definition chans_made :: "UpdateService \<Rightarrow> int \<Rightarrow> bool" where
  "chans_made s lastID = (0 \<le> lastID \<and> lastID \<le> makechan_max \<and> lastID \<le> chan_limit s)"

text \<open>
  The body of \<open>Update\<close> after the flag is taken: the returned error and the trace. Once
  the channels are made, \<open>lastID\<close> is far below the largest \<^verbatim>\<open>int64\<close>, so the counter of
  the loop that submits the jobs does not wrap.
\<close>

definition Update_body ::
  "(Comic_upd option list \<Rightarrow> Comic_upd option list) \<Rightarrow> UpdateService
   \<Rightarrow> error option \<times> call list" where
  "Update_body arrival s =
     (case db_IDs s of
        Inl err \<Rightarrow>
          (Some (Wrap ''failed to get existing IDs in DB'' err),
           [Call_IDs, Log LevelError ''failed to get existing IDs in DB''])
      | Inr IDs \<Rightarrow>
          (case xkcd_LastID s of
             Inl err \<Rightarrow>
               (Some (Wrap ''failed to get last comic from xkcd API'' err),
                [Call_IDs, Log LevelDebug ''existing comics in DB'', Call_LastID,
                 if errors_Is err ErrNotFound
                 then Log LevelWarn ''last comic not found from xkcd API''
                 else Log LevelError ''failed to get last comic from xkcd API''])
           | Inr lastID \<Rightarrow>
               (let started =
                      [Call_IDs, Log LevelDebug ''existing comics in DB'', Call_LastID,
                       Log LevelDebug ''last comics ID in XKCD'']
                in if lastID < 0 \<or> lastID > makechan_max
                   then (Some (Panic ''makechan: size out of range''), started)
                   else if lastID > chan_limit s
                   then (Some (Panic ''fatal error: runtime: out of memory''), started)
                   else
                     let comics = Update_comics arrival s IDs lastID;
                         fetching = started @ Update_workers_trace s IDs lastID
                     in if length comics = 0
                        then (None, fetching @ [Log LevelDebug ''no new comics to add''])
                        else
                          (case db_Add s comics of
                             Some err \<Rightarrow>
                               (Some (Wrap ''failed to add comics'' err),
                                fetching @ [Call_Add comics, Log LevelError ''failed to add comics''])
                           | None \<Rightarrow>
                               (None,
                                fetching @
                                [Call_Add comics, Log LevelDebug ''added new comics'',
                                 Call_Publish EventUpdate] @
                                (case publisher_Publish s EventUpdate of
                                   Some err \<Rightarrow> [Log LevelError ''failed to publish'']
                                 | None \<Rightarrow> []))))))"

text \<open>
  \<open>Update\<close> and \<open>Drop\<close> on a service whose flag \<open>inProgress\<close> has the given value: when
  the compare-and-swap from false to true fails, the call returns at once and leaves the
  flag as it is; otherwise the flag is set, the body runs, and the deferred
  \<^verbatim>\<open>Store(false)\<close> clears it.
\<close>

definition Update ::
  "(Comic_upd option list \<Rightarrow> Comic_upd option list) \<Rightarrow> UpdateService \<Rightarrow> bool \<Rightarrow> outcome" where
  "Update arrival s inProgress =
     (if inProgress then \<lparr>ret = Some ErrAlreadyExists, trace = [], flag = True\<rparr>
      else
        \<lparr>ret = fst (Update_body arrival s),
         trace = [Log LevelInfo ''update started''] @ snd (Update_body arrival s)
                 @ [Log LevelInfo ''update finished''],
         flag = False\<rparr>)"

definition Drop :: "UpdateService \<Rightarrow> bool \<Rightarrow> outcome" where
  "Drop s inProgress =
     (if inProgress then \<lparr>ret = Some ErrAlreadyExists, trace = [], flag = True\<rparr>
      else
        (case db_Drop s of
           Some err \<Rightarrow>
             \<lparr>ret = Some (Wrap ''failed to drop db entries'' err),
              trace = [Call_Drop, Log LevelError ''failed to drop db entries''],
              flag = False\<rparr>
         | None \<Rightarrow>
             \<lparr>ret = None,
              trace = [Call_Drop, Call_Publish EventReset] @
                      (case publisher_Publish s EventReset of
                         Some err \<Rightarrow> [Log LevelError ''failed to publish'']
                       | None \<Rightarrow> []),
              flag = False\<rparr>))"

subsection \<open>The flag under concurrent calls\<close>

text \<open>
  Calls of \<open>Update\<close> and \<open>Drop\<close> that overlap in time touch the flag by two atomic
  operations only: the compare-and-swap on entry and the deferred store on return. A
  call has arrived (\<open>Called\<close>), holds the flag and runs its body (\<open>Running\<close>), or has
  returned. The actions: a new call arrives; the call at position \<open>i\<close> performs its
  compare-and-swap; the running call at position \<open>i\<close> returns some result.
\<close>

datatype op = OpUpdate | OpDrop

datatype phase = Called | Running | Returned "error option"

record updater =
  inProgress :: bool
  calls :: "(op \<times> phase) list"

datatype action = Arrive op | CompareAndSwap nat | Return nat "error option"

fun step :: "updater \<Rightarrow> action \<Rightarrow> updater" where
  "step u (Arrive opn) = u\<lparr>calls := calls u @ [(opn, Called)]\<rparr>"
| "step u (CompareAndSwap i) =
     (if i < length (calls u) \<and> snd (calls u ! i) = Called
      then if inProgress u
           then u\<lparr>calls := (calls u)[i := (fst (calls u ! i), Returned (Some ErrAlreadyExists))]\<rparr>
           else u\<lparr>inProgress := True, calls := (calls u)[i := (fst (calls u ! i), Running)]\<rparr>
      else u)"
| "step u (Return i r) =
     (if i < length (calls u) \<and> snd (calls u ! i) = Running
      then u\<lparr>inProgress := False, calls := (calls u)[i := (fst (calls u ! i), Returned r)]\<rparr>
      else u)"

definition run :: "action list \<Rightarrow> updater" where
  "run acts = foldl step \<lparr>inProgress = False, calls = []\<rparr> acts"

definition in_flight :: "updater \<Rightarrow> nat" where
  "in_flight u = length (filter (\<lambda>c. snd c = Running) (calls u))"

text \<open>The flag is set exactly when one call is running.\<close>

definition flag_inv :: "updater \<Rightarrow> bool" where
  "flag_inv u = (in_flight u = (if inProgress u then 1 else 0))"

subsection \<open>The adapters above the service\<close>

text \<open>
  \<^verbatim>\<open>Server.Update\<close> of the gRPC adapter turns the service's error into a status code; the
  gateway's client turns the code back into an error, and \<^verbatim>\<open>NewUpdateHandler\<close> turns that
  into the HTTP status.
\<close>

datatype code = OK | AlreadyExists | Internal | Unavailable

definition Server_Update :: "error option \<Rightarrow> code" where
  "Server_Update r =
     (case r of
        None \<Rightarrow> OK
      | Some err \<Rightarrow> if errors_Is err ErrAlreadyExists then AlreadyExists else Internal)"

definition Client_Update :: "code \<Rightarrow> error option" where
  "Client_Update c =
     (case c of
        OK \<Rightarrow> None
      | Unavailable \<Rightarrow> Some ErrServiceUnavailable
      | AlreadyExists \<Rightarrow> Some ErrAlreadyExists
      | Internal \<Rightarrow> Some (ErrOther ''rpc error: code = Internal''))"

definition UpdateHandler :: "error option \<Rightarrow> nat" where
  "UpdateHandler r =
     (case r of
        None \<Rightarrow> 200
      | Some err \<Rightarrow>
          if errors_Is err ErrServiceUnavailable then 503
          else if errors_Is err ErrAlreadyExists then 202
          else 500)"

subsection \<open>Services of the scenarios\<close>

text \<open>
  The mocks of the repository's tests ``new comics added'' (scenario S5) and ``publisher
  error ignored''; a service whose upstream has no last comic; a service that stores
  the comics up to 402 while the upstream is at 405, knows nothing of 403 and fails on 405;
  and the service of S5 with an upstream that reports the largest \<^verbatim>\<open>int64\<close> as its last id.
  The machine has room for channels of a million elements.
\<close>

definition service_S5 :: UpdateService where
  "service_S5 =
     \<lparr>db_IDs = Inr [1, 2],
      db_Add = (\<lambda>comics. None),
      db_Drop = None,
      xkcd_LastID = Inr 4,
      xkcd_Get = (\<lambda>ident.
         if ident = 3
         then Inr \<lparr>ID_xkcd = 3, URL_xkcd = [], SafeTitle = [], Title = ''New'', Alt = [],
                   Transcript = []\<rparr>
         else if ident = 4
         then Inr \<lparr>ID_xkcd = 4, URL_xkcd = [], SafeTitle = [], Title = ''Newer'', Alt = [],
                   Transcript = []\<rparr>
         else Inl (ErrOther ''unexpected call'')),
      words_Norm_upd = (\<lambda>phrase. Inr [''new'', ''comic'']),
      publisher_Publish = (\<lambda>ev. None),
      chan_limit = 1000000\<rparr>"

definition service_publish_error :: UpdateService where
  "service_publish_error =
     \<lparr>db_IDs = Inr [],
      db_Add = (\<lambda>comics. None),
      db_Drop = None,
      xkcd_LastID = Inr 1,
      xkcd_Get = (\<lambda>ident.
         Inr \<lparr>ID_xkcd = 1, URL_xkcd = [], SafeTitle = [], Title = [], Alt = [],
              Transcript = []\<rparr>),
      words_Norm_upd = (\<lambda>phrase. Inr [''test'']),
      publisher_Publish = (\<lambda>ev. Some (ErrOther ''publish error'')),
      chan_limit = 1000000\<rparr>"

definition service_no_last :: UpdateService where
  "service_no_last =
     \<lparr>db_IDs = Inr [1],
      db_Add = (\<lambda>comics. None),
      db_Drop = None,
      xkcd_LastID = Inl ErrNotFound,
      xkcd_Get = (\<lambda>ident. Inl ErrNotFound),
      words_Norm_upd = (\<lambda>phrase. Inr []),
      publisher_Publish = (\<lambda>ev. None),
      chan_limit = 1000000\<rparr>"

definition service_tombstone :: UpdateService where
  "service_tombstone =
     \<lparr>db_IDs = Inr [1..402],
      db_Add = (\<lambda>comics. None),
      db_Drop = None,
      xkcd_LastID = Inr 405,
      xkcd_Get = (\<lambda>ident.
         if ident = 403 then Inl ErrNotFound else Inl (ErrOther ''unexpected status code 500'')),
      words_Norm_upd = (\<lambda>phrase. Inr []),
      publisher_Publish = (\<lambda>ev. None),
      chan_limit = 1000000\<rparr>"

definition service_huge_last :: UpdateService where
  "service_huge_last = service_S5\<lparr>xkcd_LastID := Inr (2 ^ 63 - 1)\<rparr>"

section \<open>Gateway: the token-bucket rate limiter\<close>

text \<open>
  A \<^verbatim>\<open>time.Time\<close> is the number of nanoseconds since the Unix epoch and a
  \<^verbatim>\<open>time.Duration\<close> a number of nanoseconds. \<^verbatim>\<open>float64\<close> values are modelled as real
  numbers: rounding is not modelled, and the concrete runs below use values on which the
  \<^verbatim>\<open>float64\<close> operations are exact. The clock is a parameter: \<open>now\<close> is what
  \<^verbatim>\<open>time.Now()\<close> returns in the call.
\<close>

definition MaxInt64 :: int where
  "MaxInt64 = 2 ^ 63 - 1"

definition MinInt64 :: int where
  "MinInt64 = - (2 ^ 63)"

definition MaxFloat64 :: real where
  "MaxFloat64 = (2 - 1 / 2 ^ 52) * 2 ^ 1023"

text \<open>The zero \<^verbatim>\<open>time.Time\<close>: January 1 of year 1.\<close>

definition zero_Time :: int where
  "zero_Time = - 62135596800 * 10 ^ 9"

text \<open>\<^verbatim>\<open>t.Sub(u)\<close> saturates at the largest and the smallest duration.\<close>

definition Sub :: "int \<Rightarrow> int \<Rightarrow> int" where
  "Sub t u = max MinInt64 (min MaxInt64 (t - u))"

text \<open>
  \<^verbatim>\<open>time.Duration(x)\<close> of a \<^verbatim>\<open>float64\<close>: truncation towards zero; out of range the
  conversion is implementation-dependent (\<open>MinInt64\<close> on amd64).
\<close>

definition Duration_of :: "real \<Rightarrow> int" where
  "Duration_of x =
     (let n = (if 0 \<le> x then \<lfloor>x\<rfloor> else \<lceil>x\<rceil>)
      in if MinInt64 \<le> n \<and> n \<le> MaxInt64 then n else MinInt64)"

record RateLimiter =
  rl_limit :: real
  rl_burst :: int
  rl_tokens :: real
  rl_last :: int

definition NewRateLimiter :: "int \<Rightarrow> RateLimiter" where
  "NewRateLimiter rate =
     \<lparr>rl_limit = real_of_int rate, rl_burst = 1, rl_tokens = 0, rl_last = zero_Time\<rparr>"

definition durationFromTokens :: "real \<Rightarrow> real \<Rightarrow> int" where
  "durationFromTokens lmt toks =
     (if lmt \<le> 0 then MaxInt64 else Duration_of (10 ^ 9 * (toks / lmt)))"

definition tokensFromDuration :: "real \<Rightarrow> int \<Rightarrow> real" where
  "tokensFromDuration lmt d = (if lmt \<le> 0 then 0 else (real_of_int d / 10 ^ 9) * lmt)"

definition tokensAt :: "RateLimiter \<Rightarrow> int \<Rightarrow> real" where
  "tokensAt rl t =
     (if rl_limit rl = MaxFloat64 then real_of_int (rl_burst rl)
      else
        let elapsed = max (Sub t (rl_last rl)) 0;
            delta = tokensFromDuration (rl_limit rl) elapsed;
            toks = rl_tokens rl + delta
        in if toks > real_of_int (rl_burst rl) then real_of_int (rl_burst rl) else toks)"

text \<open>
  A \<^verbatim>\<open>context.Context\<close>, by what \<open>wait\<close> asks of it: its deadline if it has one, the
  instant at which its \<^verbatim>\<open>Done\<close> channel is closed if it ever is, and the error
  \<^verbatim>\<open>ctx.Err()\<close> returns from then on.
\<close>

record Context =
  Deadline :: "int option"
  Done_at :: "int option"
  Err :: error

definition done_by :: "Context \<Rightarrow> int \<Rightarrow> bool" where
  "done_by ctx t = (case Done_at ctx of None \<Rightarrow> False | Some d \<Rightarrow> d \<le> t)"

definition done_before :: "Context \<Rightarrow> int \<Rightarrow> bool" where
  "done_before ctx t = (case Done_at ctx of None \<Rightarrow> False | Some d \<Rightarrow> d < t)"

text \<open>The delay \<open>wait\<close> computes at \<open>now\<close> from the refreshed token count less one.\<close>

definition wait_delay :: "RateLimiter \<Rightarrow> int \<Rightarrow> int" where
  "wait_delay rl now =
     (let toks = tokensAt rl now - 1
      in if toks < 0 then durationFromTokens (rl_limit rl) (- toks) else 0)"

text \<open>
  \<open>wait\<close>: the error returned and the limiter afterwards. The final \<^verbatim>\<open>select\<close> returns
  the context's error when the context is done before the timer fires (when both happen
  at the same instant Go may take either branch; the timer is taken here).
\<close>

definition wait :: "RateLimiter \<Rightarrow> Context \<Rightarrow> int \<Rightarrow> error option \<times> RateLimiter" where
  "wait rl ctx now =
     (if done_by ctx now then (Some (Err ctx), rl)
      else
        let refreshed = rl\<lparr>rl_tokens := tokensAt rl now, rl_last := now\<rparr>;
            toks = rl_tokens refreshed - 1;
            delay = (if toks < 0 then durationFromTokens (rl_limit rl) (- toks) else 0)
        in if (case Deadline ctx of None \<Rightarrow> False | Some deadline \<Rightarrow> now + delay > deadline)
           then (Some (ErrOther ''rate: Wait would exceed context deadline''), refreshed)
           else
             let taken = refreshed\<lparr>rl_tokens := toks\<rparr>
             in if delay \<le> 0 then (None, taken)
                else if done_before ctx (now + delay) then (Some (Err ctx), taken)
                else (None, taken))"

text \<open>
  The handler built by \<open>Limit\<close>: status 408 when \<open>wait\<close> fails, otherwise the status of
  the wrapped handler.
\<close>

definition Limit_handler :: "RateLimiter \<Rightarrow> Context \<Rightarrow> int \<Rightarrow> nat \<Rightarrow> nat \<times> RateLimiter" where
  "Limit_handler rl ctx now next_status =
     (case wait rl ctx now of
        (Some err, rl') \<Rightarrow> (408, rl')
      | (None, rl') \<Rightarrow> (next_status, rl'))"

text \<open>
  The case of the claim: \<open>wait\<close> passes both checks, has to sleep, and the context is
  done before the timer fires.
\<close>

definition cancelled_while_sleeping :: "RateLimiter \<Rightarrow> Context \<Rightarrow> int \<Rightarrow> bool" where
  "cancelled_while_sleeping rl ctx now =
     (\<not> done_by ctx now
      \<and> (case Deadline ctx of None \<Rightarrow> True | Some deadline \<Rightarrow> now + wait_delay rl now \<le> deadline)
      \<and> 0 < wait_delay rl now
      \<and> done_before ctx (now + wait_delay rl now))"

text \<open>
  A limiter of one request per second right after it admitted a request at instant 0, and
  a context without deadline that is cancelled half a second later.
\<close>

definition limiter_used :: RateLimiter where
  "limiter_used = \<lparr>rl_limit = 1, rl_burst = 1, rl_tokens = 0, rl_last = 0\<rparr>"

definition ctx_cancelled :: Context where
  "ctx_cancelled =
     \<lparr>Deadline = None, Done_at = Some 500000000, Err = ErrOther ''context canceled''\<rparr>"

definition ctx_background :: Context where
  "ctx_background = \<lparr>Deadline = None, Done_at = None, Err = ErrOther []\<rparr>"

section \<open>Properties of the normalizer\<close>


lemma first_occurrences_set: "set (first_occurrences seen xs) = set xs - set seen"
  by (induction seen xs rule: first_occurrences.induct) auto

lemma first_occurrences_distinct: "distinct (first_occurrences seen xs)"
  by (induction seen xs rule: first_occurrences.induct) (auto simp: first_occurrences_set)

lemma remdups_snoc: "remdups (ys @ [x]) = remdups (filter (\<lambda>y. y \<noteq> x) ys) @ [x]"
  by (induction ys) auto

lemma first_occurrences_remdups:
  "first_occurrences seen xs = rev (remdups (rev (filter (\<lambda>x. x \<notin> set seen) xs)))"
proof (induction seen xs rule: first_occurrences.induct)
  case (1 seen)
  then show ?case by simp
next
  case (2 seen x xs)
  show ?case
  proof (cases "x \<in> set seen")
    case True
    with 2 show ?thesis by simp
  next
    case False
    have "filter (\<lambda>y. y \<noteq> x) (rev (filter (\<lambda>y. y \<notin> set seen) xs))
          = rev (filter (\<lambda>y. y \<notin> set (seen @ [x])) xs)"
      by (simp add: rev_filter [symmetric] conj_commute)
    with 2 False show ?thesis by (simp add: remdups_snoc)
  qed
qed

lemma first_occurrences_id:
  "distinct xs \<Longrightarrow> set xs \<inter> set seen = {} \<Longrightarrow> first_occurrences seen xs = xs"
  by (induction seen xs rule: first_occurrences.induct) auto

lemma Norm_loop_eq:
  "Norm_loop L kws (\<lambda>w. w \<in> set kws) ws
     = kws @ first_occurrences kws (filter (\<lambda>w. \<not> IsStopWord L w) (map (Stem L) ws))"
proof (induction ws arbitrary: kws)
  case Nil
  then show ?case by simp
next
  case (Cons w ws)
  have upd: "(\<lambda>v. v \<in> set kws)(Stem L w := True) = (\<lambda>v. v \<in> set (kws @ [Stem L w]))"
    by (auto simp: fun_eq_iff)
  show ?case
    using Cons.IH [of kws] Cons.IH [of "kws @ [Stem L w]"]
    by (simp add: Let_def upd)
qed

lemma Norm_first_occurrences: "Norm L p = first_occurrences [] (stemmed_tokens L p)"
  using Norm_loop_eq [of L "[]"] by (simp add: Norm_def stemmed_tokens_def)

lemma Norm_set: "set (Norm L p) = set (stemmed_tokens L p)"
  by (simp add: Norm_first_occurrences first_occurrences_set)

text \<open>
  C4. For every phrase, the keywords returned by \<open>Norm\<close> are pairwise distinct, none of
  them is a stop-word of the stemmer's list, and they are the stemmed tokens of the phrase
  that are not stop-words, each kept at its first occurrence and in the order of the phrase
  (\<open>remdups\<close> keeps last occurrences, hence the two reversals).
\<close>

theorem Norm_distinct_nonstop_first_occurrence:
  "distinct (Norm L p)
   \<and> (\<forall>k \<in> set (Norm L p). \<not> IsStopWord L k)
   \<and> Norm L p = rev (remdups (rev (stemmed_tokens L p)))"
proof -
  have "distinct (Norm L p)"
    by (simp add: Norm_first_occurrences first_occurrences_distinct)
  moreover have "\<forall>k \<in> set (Norm L p). \<not> IsStopWord L k"
    by (simp add: Norm_set stemmed_tokens_def)
  moreover have "Norm L p = rev (remdups (rev (stemmed_tokens L p)))"
    by (simp add: Norm_first_occurrences first_occurrences_remdups)
  ultimately show ?thesis by blast
qed


lemmas scenario_defs =
  english_scenarios_def Norm_def FieldsFunc_def isSep_def ascii_IsLetter_def
  ascii_IsNumber_def Stem_scenarios_def Stem_table_def IsStopWord_scenarios_def
  stemmed_tokens_def

theorem Norm_distinct_nonstop_first_occurrence_witness:
  "distinct (Norm english_scenarios ''I follow followers'')
   \<and> map (IsStopWord english_scenarios) (Norm english_scenarios ''I follow followers'')
       = [False]
   \<and> Norm english_scenarios ''I follow followers'' = [''follow'']
   \<and> rev (remdups (rev (stemmed_tokens english_scenarios ''I follow followers'')))
       = [''follow'']"
  using Norm_distinct_nonstop_first_occurrence [of english_scenarios "''I follow followers''"]
  by (simp add: scenario_defs)

text \<open>
  C5 as stated (``check'' before ``123'') fails: the token \<^verbatim>\<open>123\<close> occurs before
  \<^verbatim>\<open>check\<close> in the phrase and \<open>Norm\<close> keeps the order of first occurrence.
\<close>

theorem Norm_weird_claimed_order_counterexample:
  "Norm english_scenarios ''Moscow!123'check-it'or   123, man,that,difficult:heck''
     \<noteq> [''moscow'', ''check'', ''123'', ''man'', ''difficult'', ''heck'']"
  by (simp add: scenario_defs Let_def)

text \<open>
  C5 (amended). With any library that classifies the runes of the phrase as ASCII does,
  stems its nine distinct tokens as the Snowball English stemmer does and reports
  \<^verbatim>\<open>it\<close>, \<^verbatim>\<open>or\<close> and \<^verbatim>\<open>that\<close> as the stop-words among the stems, \<open>Norm\<close> of the
  phrase of scenario S3 is the list moscow, 123, check, man, difficult, heck, in this order.
\<close>

theorem Norm_weird_scenario:
  fixes L :: "char textlib"
  assumes letters: "\<forall>c \<in> set ''Moscowcheckitormanthatdifficultheck''. IsLetter L c"
    and digits: "\<forall>c \<in> set ''123''. IsNumber L c"
    and punct: "\<forall>c \<in> set ''!'- ,:''. \<not> IsLetter L c \<and> \<not> IsNumber L c"
    and stems:
      "map (Stem L)
         [''Moscow'', ''123'', ''check'', ''it'', ''or'', ''man'', ''that'', ''difficult'', ''heck'']
       = [''moscow'', ''123'', ''check'', ''it'', ''or'', ''man'', ''that'', ''difficult'', ''heck'']"
    and stops:
      "map (IsStopWord L)
         [''moscow'', ''123'', ''check'', ''it'', ''or'', ''man'', ''that'', ''difficult'', ''heck'']
       = [False, False, False, True, True, False, True, False, False]"
  shows "Norm L ''Moscow!123'check-it'or   123, man,that,difficult:heck''
           = [''moscow'', ''123'', ''check'', ''man'', ''difficult'', ''heck'']"
proof -
  have fields:
    "FieldsFunc (isSep L) ''Moscow!123'check-it'or   123, man,that,difficult:heck''
       = [''Moscow'', ''123'', ''check'', ''it'', ''or'', ''123'', ''man'', ''that'',
          ''difficult'', ''heck'']"
    using letters digits punct by (simp add: FieldsFunc_def isSep_def)
  show ?thesis
    unfolding Norm_def fields using stems stops by (simp add: Let_def)
qed

theorem Norm_weird_scenario_witness:
  "Norm english_scenarios ''Moscow!123'check-it'or   123, man,that,difficult:heck''
     = [''moscow'', ''123'', ''check'', ''man'', ''difficult'', ''heck'']"
  by (rule Norm_weird_scenario) (simp_all add: scenario_defs)

subsection \<open>A second pass over the keywords\<close>

lemma FieldsFunc_from_Some_append:
  "\<forall>c \<in> set w. \<not> f c \<Longrightarrow>
     FieldsFunc_from f (Some a) (w @ rest) = FieldsFunc_from f (Some (a @ w)) rest"
  by (induction w arbitrary: a) auto

lemma FieldsFunc_from_None_append:
  "w \<noteq> [] \<Longrightarrow> \<forall>c \<in> set w. \<not> f c \<Longrightarrow>
     FieldsFunc_from f None (w @ rest) = FieldsFunc_from f (Some w) rest"
  using FieldsFunc_from_Some_append [of "tl w" f "[hd w]" rest]
  by (cases w) auto

lemma FieldsFunc_Join:
  assumes "f sp" and "\<forall>w \<in> set ws. w \<noteq> [] \<and> (\<forall>c \<in> set w. \<not> f c)"
  shows "FieldsFunc f (Join ws sp) = ws"
  using assms(2)
proof (induction ws)
  case Nil
  then show ?case by (simp add: FieldsFunc_def)
next
  case (Cons w ws)
  show ?case
  proof (cases ws)
    case Nil
    then show ?thesis
      using Cons.prems FieldsFunc_from_None_append [of w f "[]"] by (simp add: FieldsFunc_def)
  next
    case (Cons v vs)
    then show ?thesis
      using Cons.prems Cons.IH assms(1)
        FieldsFunc_from_None_append [of w f "sp # Join (v # vs) sp"]
      by (simp add: FieldsFunc_def)
  qed
qed

text \<open>
  C6 as stated fails: the stemmer is not idempotent. \<^verbatim>\<open>lensing\<close> is stemmed to
  \<^verbatim>\<open>lens\<close>, which is kept as the only keyword; a second pass stems \<^verbatim>\<open>lens\<close> to
  \<^verbatim>\<open>len\<close>.
\<close>

theorem Norm_idempotence_counterexample:
  "\<not> (\<forall>p. Norm english_scenarios (Join (Norm english_scenarios p) CHR '' '')
            = Norm english_scenarios p)"
proof
  assume "\<forall>p. Norm english_scenarios (Join (Norm english_scenarios p) CHR '' '')
            = Norm english_scenarios p"
  then have "Norm english_scenarios (Join (Norm english_scenarios ''lensing'') CHR '' '')
      = Norm english_scenarios ''lensing''"
    by blast
  then show False by (simp add: scenario_defs Let_def)
qed

text \<open>
  C6 (amended). For every phrase whose keywords are non-empty, consist of letters and
  digits only and are left unchanged by the stemmer, \<open>Norm\<close> of the keywords joined by a
  separator rune (the space) is the list of keywords again.
\<close>

theorem Norm_idempotent_on_stable_keywords:
  assumes sp: "isSep L sp"
    and stable:
      "\<forall>w \<in> set (Norm L p). Stem L w = w \<and> w \<noteq> [] \<and> (\<forall>c \<in> set w. \<not> isSep L c)"
  shows "Norm L (Join (Norm L p) sp) = Norm L p"
proof -
  let ?ws = "Norm L p"
  have fields: "FieldsFunc (isSep L) (Join ?ws sp) = ?ws"
    using sp stable by (intro FieldsFunc_Join) auto
  have stems: "map (Stem L) ?ws = ?ws"
    using stable by (simp add: map_idI)
  have nonstop: "filter (\<lambda>w. \<not> IsStopWord L w) ?ws = ?ws"
    by (simp add: Norm_set stemmed_tokens_def)
  have "stemmed_tokens L (Join ?ws sp) = ?ws"
    unfolding stemmed_tokens_def fields stems nonstop ..
  moreover have "distinct ?ws"
    by (simp add: Norm_first_occurrences first_occurrences_distinct)
  ultimately show ?thesis
    using first_occurrences_id [of ?ws "[]"] Norm_first_occurrences [of L "Join ?ws sp"]
    by simp
qed

theorem Norm_idempotent_on_stable_keywords_witness:
  "isSep english_scenarios CHR '' ''
   \<and> Norm english_scenarios ''I follow followers'' = [''follow'']
   \<and> Norm english_scenarios (Join (Norm english_scenarios ''I follow followers'') CHR '' '')
       = [''follow'']"
proof -
  have sp: "isSep english_scenarios CHR '' ''"
    by (simp add: scenario_defs)
  have n: "Norm english_scenarios ''I follow followers'' = [''follow'']"
    by (simp add: scenario_defs Let_def)
  have stable: "\<forall>w \<in> set (Norm english_scenarios ''I follow followers'').
      Stem english_scenarios w = w \<and> w \<noteq> [] \<and> (\<forall>c \<in> set w. \<not> isSep english_scenarios c)"
    unfolding n by (simp add: scenario_defs)
  show ?thesis
    using sp n Norm_idempotent_on_stable_keywords [OF sp stable] by simp
qed

section \<open>Properties of the full-scan search\<close>

lemma matched_loop_eq: "matched_loop P m ws = m + int (length (filter P ws))"
  by (induction ws arbitrary: m) auto

lemma fold_upd_True:
  "fold (\<lambda>word m. m(word := True)) kws m0 = (\<lambda>w. w \<in> set kws \<or> m0 w)"
  by (induction kws arbitrary: m0) (auto simp: fun_eq_iff)

lemma setOfPhrase_of_eq: "setOfPhrase_of keywords = (\<lambda>w. w \<in> set keywords)"
  by (simp add: setOfPhrase_of_def fold_upd_True)

lemma ranks_loop_eq:
  "ranks_loop (\<lambda>w. w \<in> set keywords) acc catalog = acc @ ranks_of keywords catalog"
  by (induction catalog arbitrary: acc)
     (auto simp: ranks_of_def rank_of_def matched_loop_eq Let_def filter_empty_conv)

lemma int64_id: "- (2 ^ 63) \<le> x \<Longrightarrow> x < 2 ^ 63 \<Longrightarrow> int64 x = x"
  by (simp add: int64_def)

lemma ranks_of_bounds:
  assumes "\<forall>comic \<in> set catalog. length (Words comic) < 2 ^ 31"
    and "r \<in> set (ranks_of keywords catalog)"
  shows "1 \<le> matched r \<and> matched r \<le> total r \<and> total r < 2 ^ 31"
proof -
  from assms(2) obtain c where c: "c \<in> set catalog" "\<exists>w \<in> set (Words c). w \<in> set keywords"
      and r: "r = rank_of keywords c"
    by (auto simp: ranks_of_def)
  have "filter (\<lambda>w. w \<in> set keywords) (Words c) \<noteq> []"
    using c(2) by (simp add: filter_empty_conv)
  then have "1 \<le> int (length (filter (\<lambda>w. w \<in> set keywords) (Words c)))"
    by (cases "filter (\<lambda>w. w \<in> set keywords) (Words c)") auto
  moreover have "length (filter (\<lambda>w. w \<in> set keywords) (Words c)) \<le> length (Words c)"
    by simp
  moreover have "int (length (Words c)) < 2 ^ 31"
    using assms(1) c(1) by (metis of_nat_less_iff of_nat_numeral of_nat_power)
  ultimately show ?thesis by (simp add: r rank_of_def)
qed

lemma cross_no_overflow:
  assumes "1 \<le> ma" "ma \<le> ta" "ta < 2 ^ 31" "1 \<le> mb" "mb \<le> tb" "tb < (2 ^ 31 :: int)"
  shows "int64 (ma * tb) = ma * tb"
proof -
  have "ma * tb \<le> 2 ^ 31 * 2 ^ 31"
    using assms by (intro mult_mono) auto
  moreover have "0 \<le> ma * tb" using assms by simp
  ultimately show ?thesis by (intro int64_id) auto
qed

lemma rank_less_bounded:
  assumes "1 \<le> matched a" "matched a \<le> total a" "total a < 2 ^ 31"
    and "1 \<le> matched b" "matched b \<le> total b" "total b < 2 ^ 31"
  shows "rank_less a b =
           (matched a > matched b
            \<or> (matched a = matched b \<and> matched a * total b > matched b * total a))"
  using cross_no_overflow [OF assms] cross_no_overflow [OF assms(4-6) assms(1-3)]
  by (auto simp: rank_less_def Let_def)

lemma not_rank_less_ranks_before:
  assumes "1 \<le> matched a" "matched a \<le> total a" "total a < 2 ^ 31"
    and "1 \<le> matched b" "matched b \<le> total b" "total b < 2 ^ 31"
  shows "(\<not> rank_less b a) = ranks_before a b"
proof -
  have h: "rank_less b a =
           (matched b > matched a
            \<or> (matched b = matched a \<and> matched b * total a > matched a * total b))"
    by (rule rank_less_bounded [OF assms(4-6) assms(1-3)])
  show ?thesis
    unfolding h ranks_before_def by auto
qed

lemma insert_left_mset: "mset (insert_left lt x ys) = add_mset x (mset ys)"
  by (induction ys) auto

lemma fold_insert_left_mset: "mset (fold (insert_left lt) xs acc) = mset xs + mset acc"
  by (induction xs arbitrary: acc) (auto simp: insert_left_mset)

lemma insertionSort_mset: "mset (insertionSort lt xs) = mset xs"
  by (simp add: insertionSort_def fold_insert_left_mset)

lemma insert_left_set: "set (insert_left lt x ys) = insert x (set ys)"
  by (induction ys) auto


lemma insert_left_sorted:
  assumes tr: "\<forall>a \<in> A. \<forall>b \<in> A. \<forall>c \<in> A. \<not> lt a b \<longrightarrow> \<not> lt b c \<longrightarrow> \<not> lt a c"
    and asym: "\<forall>a \<in> A. \<forall>b \<in> A. lt a b \<longrightarrow> \<not> lt b a"
    and x: "x \<in> A"
  shows "set ys \<subseteq> A \<Longrightarrow> sorted_wrt (\<lambda>a b. \<not> lt a b) ys \<Longrightarrow>
         sorted_wrt (\<lambda>a b. \<not> lt a b) (insert_left lt x ys)"
proof (induction ys)
  case Nil
  then show ?case by simp
next
  case (Cons y ys)
  have y: "y \<in> A" and ys: "set ys \<subseteq> A" using Cons.prems(1) by simp_all
  have sy: "\<forall>z \<in> set ys. \<not> lt y z" and sys: "sorted_wrt (\<lambda>a b. \<not> lt a b) ys"
    using Cons.prems(2) by simp_all
  show ?case
  proof (cases "lt x y")
    case True
    have "\<not> lt y x" using asym x y True by blast
    moreover have "sorted_wrt (\<lambda>a b. \<not> lt a b) (insert_left lt x ys)"
      using Cons.IH ys sys by blast
    ultimately show ?thesis
      using True sy by (simp add: insert_left_set)
  next
    case False
    have "\<forall>z \<in> set ys. \<not> lt x z"
    proof
      fix z assume z: "z \<in> set ys"
      then have "z \<in> A" "\<not> lt y z" using ys sy by auto
      then show "\<not> lt x z" using tr x y False by blast
    qed
    then show ?thesis
      using False sy sys by simp
  qed
qed

lemma fold_insert_left_sorted:
  assumes tr: "\<forall>a \<in> A. \<forall>b \<in> A. \<forall>c \<in> A. \<not> lt a b \<longrightarrow> \<not> lt b c \<longrightarrow> \<not> lt a c"
    and asym: "\<forall>a \<in> A. \<forall>b \<in> A. lt a b \<longrightarrow> \<not> lt b a"
  shows "set xs \<subseteq> A \<Longrightarrow> set acc \<subseteq> A \<Longrightarrow> sorted_wrt (\<lambda>a b. \<not> lt a b) acc \<Longrightarrow>
         sorted_wrt (\<lambda>a b. \<not> lt a b) (fold (insert_left lt) xs acc)"
proof (induction xs arbitrary: acc)
  case Nil
  then show ?case by simp
next
  case (Cons x xs)
  have x: "x \<in> A" and xs: "set xs \<subseteq> A" using Cons.prems(1) by simp_all
  have s: "sorted_wrt (\<lambda>a b. \<not> lt a b) (insert_left lt x acc)"
    using insert_left_sorted [OF tr asym x Cons.prems(2) Cons.prems(3)] .
  have sub: "set (insert_left lt x acc) \<subseteq> A"
    using Cons.prems(2) x by (simp add: insert_left_set)
  show ?case
    using Cons.IH [OF xs sub s] by simp
qed

lemma insertionSort_post:
  assumes tr: "\<forall>a \<in> set xs. \<forall>b \<in> set xs. \<forall>c \<in> set xs.
                 \<not> lt a b \<longrightarrow> \<not> lt b c \<longrightarrow> \<not> lt a c"
    and asym: "\<forall>a \<in> set xs. \<forall>b \<in> set xs. lt a b \<longrightarrow> \<not> lt b a"
  shows "sort_Slice_post lt xs (insertionSort lt xs)"
proof -
  have "sorted_wrt (\<lambda>a b. \<not> lt a b) (fold (insert_left lt) xs [])"
    using fold_insert_left_sorted [OF tr asym, of xs "[]"] by simp
  then have "sorted_wrt (\<lambda>a b. \<not> lt b a) (insertionSort lt xs)"
    by (simp add: insertionSort_def sorted_wrt_rev)
  then show ?thesis
    by (simp add: sort_Slice_post_def insertionSort_mset)
qed

lemma ranks_before_trans:
  assumes "0 < matched a" "0 < matched b" "0 < matched c"
    and "ranks_before c b" "ranks_before b a"
  shows "ranks_before c a"
proof (cases "matched c = matched b \<and> matched b = matched a")
  case True
  then have "total c \<le> total b" "total b \<le> total a"
    using assms by (auto simp: ranks_before_def)
  then have "matched a * total c \<le> matched a * total a"
    using assms(1) by (simp add: mult_left_mono)
  then show ?thesis using True by (simp add: ranks_before_def)
next
  case False
  then show ?thesis
    using assms(4,5) by (auto simp: ranks_before_def)
qed

lemma insertionSort_rank_less_post:
  assumes bound: "\<forall>comic \<in> set catalog. length (Words comic) < 2 ^ 31"
  shows "sort_Slice_post rank_less (ranks_of keywords catalog)
           (insertionSort rank_less (ranks_of keywords catalog))"
proof (rule insertionSort_post)
  let ?R = "set (ranks_of keywords catalog)"
  have bnd: "\<And>r. r \<in> ?R \<Longrightarrow> 1 \<le> matched r \<and> matched r \<le> total r \<and> total r < 2 ^ 31"
    using ranks_of_bounds [OF bound] by blast
  have iff: "\<And>a b. a \<in> ?R \<Longrightarrow> b \<in> ?R \<Longrightarrow> (\<not> rank_less b a) = ranks_before a b"
    using not_rank_less_ranks_before bnd by blast
  have pos: "\<And>r. r \<in> ?R \<Longrightarrow> 0 < matched r"
    using bnd by force
  show "\<forall>a \<in> ?R. \<forall>b \<in> ?R. \<forall>c \<in> ?R. \<not> rank_less a b \<longrightarrow> \<not> rank_less b c \<longrightarrow> \<not> rank_less a c"
  proof (intro ballI impI)
    fix a b c
    assume m: "a \<in> ?R" "b \<in> ?R" "c \<in> ?R" and n: "\<not> rank_less a b" "\<not> rank_less b c"
    have "ranks_before b a" "ranks_before c b"
      using iff m n by blast+
    then have "ranks_before c a"
      using ranks_before_trans [of a b c] pos m by blast
    then show "\<not> rank_less a c" using iff m by blast
  qed
  show "\<forall>a \<in> ?R. \<forall>b \<in> ?R. rank_less a b \<longrightarrow> \<not> rank_less b a"
  proof (intro ballI impI)
    fix a b
    assume m: "a \<in> ?R" "b \<in> ?R" and l: "rank_less a b"
    have "\<not> ranks_before b a" using iff m l by blast
    then have "ranks_before a b" by (auto simp: ranks_before_def)
    then show "\<not> rank_less b a" using iff m by blast
  qed
qed

lemma sorted_wrt_mset_unique:
  assumes anti: "\<forall>x \<in> set xs. \<forall>y \<in> set xs. P x y \<longrightarrow> P y x \<longrightarrow> x = y"
  shows "sorted_wrt P xs \<Longrightarrow> sorted_wrt P ys \<Longrightarrow> mset ys = mset xs \<Longrightarrow> ys = xs"
  using anti
proof (induction xs arbitrary: ys)
  case Nil
  then show ?case by simp
next
  case (Cons x xs)
  from Cons.prems(3) obtain y ys' where ys: "ys = y # ys'"
    by (cases ys) auto
  have sets: "set ys = set (x # xs)"
    using Cons.prems(3) by (rule mset_eq_setD)
  have "y = x"
  proof (rule ccontr)
    assume ne: "y \<noteq> x"
    then have "x \<in> set ys'" "y \<in> set xs"
      using sets ys by auto
    then have "P y x" "P x y"
      using Cons.prems(1,2) ys by auto
    moreover have "x \<in> set (x # xs)" "y \<in> set (x # xs)"
      using \<open>y \<in> set xs\<close> by auto
    ultimately show False using Cons.prems(4) ne by blast
  qed
  moreover have "ys' = xs"
  proof (rule Cons.IH)
    show "sorted_wrt P xs" using Cons.prems(1) by simp
    show "sorted_wrt P ys'" using Cons.prems(2) ys by simp
    show "mset ys' = mset xs" using Cons.prems(3) ys \<open>y = x\<close> by simp
    show "\<forall>x \<in> set xs. \<forall>y \<in> set xs. P x y \<longrightarrow> P y x \<longrightarrow> x = y"
      using Cons.prems(4) by simp
  qed
  ultimately show ?case using ys by simp
qed

lemma Search_ranked:
  assumes phrase: "phrase \<noteq> []" and limit: "0 < limit"
    and norm: "words_Norm s phrase = Inr kws"
    and cat: "GetAllComicsInfo (db s) = Inr catalog"
    and bound: "\<forall>comic \<in> set catalog. length (Words comic) < 2 ^ 31"
    and srt: "sort_Slice_post rank_less (ranks_of kws catalog)
                (sort_Slice rank_less (ranks_of kws catalog))"
  shows "\<exists>ranked. Search sort_Slice s phrase limit = Inr (map Comic_of (take (nat limit) ranked))
           \<and> mset ranked = mset (ranks_of kws catalog)
           \<and> sorted_wrt ranks_before ranked"
proof -
  let ?R = "ranks_of kws catalog"
  let ?ranked = "sort_Slice rank_less ?R"
  have loop: "ranks_loop (setOfPhrase_of kws) [] catalog = ?R"
    using ranks_loop_eq [of kws "[]" catalog] by (simp add: setOfPhrase_of_eq)
  have ms: "mset ?ranked = mset ?R" and sorted: "sorted_wrt (\<lambda>a b. \<not> rank_less b a) ?ranked"
    using srt by (simp_all add: sort_Slice_post_def)
  have len: "length ?ranked = length ?R"
    using ms by (rule mset_eq_length)
  have sets: "set ?ranked = set ?R"
    using ms by (rule mset_eq_setD)
  have before: "sorted_wrt ranks_before ?ranked"
  proof (rule sorted_wrt_mono_rel [OF _ sorted])
    fix a b
    assume "a \<in> set ?ranked" "b \<in> set ?ranked" "\<not> rank_less b a"
    then show "ranks_before a b"
      using not_rank_less_ranks_before [of a b] ranks_of_bounds [OF bound] sets by blast
  qed
  have take_eq: "take (nat (min (int (length ?R)) limit)) ?ranked = take (nat limit) ?ranked"
    using len limit by (cases "int (length ?R) \<le> limit") (simp_all add: min_def)
  have nonneg: "\<not> min (int (length ?R)) limit < 0"
    using limit by simp
  have "Search sort_Slice s phrase limit = Inr (map Comic_of (take (nat limit) ?ranked))"
  proof (cases "?R = []")
    case True
    then have "?ranked = []" using len by simp
    then show ?thesis
      using phrase limit True
      by (simp add: Search_def norm cat rankedSearch_def loop Let_def)
  next
    case False
    then have "catalog \<noteq> []" by (auto simp: ranks_of_def)
    then show ?thesis
      using phrase limit False nonneg take_eq
      by (simp add: Search_def norm cat rankedSearch_def loop Let_def)
  qed
  then show ?thesis using ms before by blast
qed


lemma ranks_of_S4:
  assumes "{''test'', ''phrase'', ''unknown''} \<subseteq> set kws"
  shows "ranks_of kws catalog_S4 =
     [\<lparr>ID = 1, URL = ''url1'', matched = 2, total = 2\<rparr>,
      \<lparr>ID = 2, URL = ''url2'', matched = 3, total = 3\<rparr>,
      \<lparr>ID = 3, URL = ''url3'', matched = 1, total = 1\<rparr>]"
  using assms by (simp add: ranks_of_def rank_of_def catalog_S4_def)

lemma Search_S4:
  assumes norm: "words_Norm s ''test phrase is unknown'' = Inr kws"
    and kws: "{''test'', ''phrase'', ''unknown''} \<subseteq> set kws"
    and cat: "GetAllComicsInfo (db s) = Inr catalog_S4"
    and srt: "sort_Slice_post rank_less (ranks_of kws catalog_S4)
                (sort_Slice rank_less (ranks_of kws catalog_S4))"
  shows "Search sort_Slice s ''test phrase is unknown'' 10 =
           Inr [\<lparr>ID = 2, URL = ''url2''\<rparr>, \<lparr>ID = 1, URL = ''url1''\<rparr>,
                \<lparr>ID = 3, URL = ''url3''\<rparr>]"
proof -
  let ?xs = "[\<lparr>ID = 2, URL = ''url2'', matched = 3, total = 3\<rparr>,
              \<lparr>ID = 1, URL = ''url1'', matched = 2, total = 2\<rparr>,
              \<lparr>ID = 3, URL = ''url3'', matched = 1, total = 1\<rparr>]"
  have bound: "\<forall>comic \<in> set catalog_S4. length (Words comic) < 2 ^ 31"
    by (simp add: catalog_S4_def)
  have "\<exists>ranked. Search sort_Slice s ''test phrase is unknown'' 10
            = Inr (map Comic_of (take (nat 10) ranked))
          \<and> mset ranked = mset (ranks_of kws catalog_S4)
          \<and> sorted_wrt ranks_before ranked"
    by (rule Search_ranked [where sort_Slice = sort_Slice and kws = kws, OF _ _ norm cat bound srt])
       simp_all
  then obtain ranked where
    res: "Search sort_Slice s ''test phrase is unknown'' 10
            = Inr (map Comic_of (take (nat 10) ranked))"
    and ms: "mset ranked = mset (ranks_of kws catalog_S4)"
    and sorted: "sorted_wrt ranks_before ranked"
    by blast
  have "ranked = ?xs"
  proof (rule sorted_wrt_mset_unique [where P = ranks_before])
    show "\<forall>x \<in> set ?xs. \<forall>y \<in> set ?xs. ranks_before x y \<longrightarrow> ranks_before y x \<longrightarrow> x = y"
      by (simp add: ranks_before_def)
    show "sorted_wrt ranks_before ?xs" by (simp add: ranks_before_def)
    show "sorted_wrt ranks_before ranked" by (rule sorted)
    show "mset ranked = mset ?xs" unfolding ms ranks_of_S4 [OF kws] by simp
  qed
  then show ?thesis unfolding res by (simp add: Comic_of_def)
qed

text \<open>
  C1. Let \<open>Search\<close> be called with a non-empty phrase and a positive limit, let the words
  service return \<open>kws\<close> and the store return \<open>catalog\<close> (entries of fewer than \<open>2^31\<close>
  words, so that the \<^verbatim>\<open>int64\<close> products do not wrap), and let \<^verbatim>\<open>sort.Slice\<close> keep its
  promise on the computed ranks. Then the result is the first \<open>limit\<close> entries of a list
  \<open>ranked\<close> that holds exactly the ranks of the entries sharing a word with the keywords
  (\<open>matched \<noteq> 0\<close>) and is ordered by descending \<open>matched\<close>, ties by descending
  \<open>matched / total\<close> compared cross-multiplied. A sorting procedure that keeps the promise
  exists for every such catalog (insertion sort). On the catalog of scenario S4 with the
  phrase ``test phrase is unknown'' and limit 10, the result has the ids 2, 1, 3 in this
  order, for every such procedure and whatever keywords the words service returns for the
  phrase, as long as test, phrase and unknown are among them.
\<close>

theorem Search_full_scan_ranking:
  assumes phrase: "phrase \<noteq> []" and limit: "0 < limit"
    and norm: "words_Norm s phrase = Inr kws"
    and cat: "GetAllComicsInfo (db s) = Inr catalog"
    and bound: "\<forall>comic \<in> set catalog. length (Words comic) < 2 ^ 31"
    and srt: "sort_Slice_post rank_less (ranks_of kws catalog)
                (sort_Slice rank_less (ranks_of kws catalog))"
  shows "(\<exists>ranked. Search sort_Slice s phrase limit = Inr (map Comic_of (take (nat limit) ranked))
            \<and> mset ranked = mset (ranks_of kws catalog)
            \<and> sorted_wrt ranks_before ranked)
         \<and> sort_Slice_post rank_less (ranks_of kws catalog)
              (insertionSort rank_less (ranks_of kws catalog))
         \<and> (\<forall>srt s4 kws4.
               words_Norm s4 ''test phrase is unknown'' = Inr kws4 \<longrightarrow>
               {''test'', ''phrase'', ''unknown''} \<subseteq> set kws4 \<longrightarrow>
               GetAllComicsInfo (db s4) = Inr catalog_S4 \<longrightarrow>
               sort_Slice_post rank_less (ranks_of kws4 catalog_S4)
                 (srt rank_less (ranks_of kws4 catalog_S4)) \<longrightarrow>
               Search srt s4 ''test phrase is unknown'' 10 =
                 Inr [\<lparr>ID = 2, URL = ''url2''\<rparr>, \<lparr>ID = 1, URL = ''url1''\<rparr>,
                      \<lparr>ID = 3, URL = ''url3''\<rparr>])"
  using Search_ranked [where sort_Slice = sort_Slice and kws = kws, OF assms]
    insertionSort_rank_less_post [OF bound] Search_S4
  by blast

theorem Search_full_scan_ranking_witness:
  "sort_Slice_post rank_less
     (ranks_of [''test'', ''phrase'', ''is'', ''unknown''] catalog_S4)
     (insertionSort rank_less (ranks_of [''test'', ''phrase'', ''is'', ''unknown''] catalog_S4))
   \<and> Search insertionSort service_S4 ''test phrase is unknown'' 10 =
       Inr [\<lparr>ID = 2, URL = ''url2''\<rparr>, \<lparr>ID = 1, URL = ''url1''\<rparr>,
            \<lparr>ID = 3, URL = ''url3''\<rparr>]"
proof -
  let ?kws = "[''test'', ''phrase'', ''is'', ''unknown'']"
  have phrase: "''test phrase is unknown'' \<noteq> []" by simp
  have limit: "(0::int) < 10" by simp
  have norm: "words_Norm service_S4 ''test phrase is unknown'' = Inr ?kws"
    by (simp add: service_S4_def)
  have cat: "GetAllComicsInfo (db service_S4) = Inr catalog_S4"
    by (simp add: service_S4_def pg_DB_def)
  have bound: "\<forall>comic \<in> set catalog_S4. length (Words comic) < 2 ^ 31"
    by (simp add: catalog_S4_def)
  have srt: "sort_Slice_post rank_less (ranks_of ?kws catalog_S4)
               (insertionSort rank_less (ranks_of ?kws catalog_S4))"
    by (simp add: ranks_of_S4 sort_Slice_post_def insertionSort_def rank_less_def int64_def)
  have sub: "{''test'', ''phrase'', ''unknown''} \<subseteq> set ?kws" by simp
  have "\<forall>srt s4 kws4.
               words_Norm s4 ''test phrase is unknown'' = Inr kws4 \<longrightarrow>
               {''test'', ''phrase'', ''unknown''} \<subseteq> set kws4 \<longrightarrow>
               GetAllComicsInfo (db s4) = Inr catalog_S4 \<longrightarrow>
               sort_Slice_post rank_less (ranks_of kws4 catalog_S4)
                 (srt rank_less (ranks_of kws4 catalog_S4)) \<longrightarrow>
               Search srt s4 ''test phrase is unknown'' 10 =
                 Inr [\<lparr>ID = 2, URL = ''url2''\<rparr>, \<lparr>ID = 1, URL = ''url1''\<rparr>,
                      \<lparr>ID = 3, URL = ''url3''\<rparr>]"
    using Search_full_scan_ranking
      [where sort_Slice = insertionSort and kws = ?kws, OF phrase limit norm cat bound srt]
    by blast
  then have "Search insertionSort service_S4 ''test phrase is unknown'' 10 =
                 Inr [\<lparr>ID = 2, URL = ''url2''\<rparr>, \<lparr>ID = 1, URL = ''url1''\<rparr>,
                      \<lparr>ID = 3, URL = ''url3''\<rparr>]"
    using norm sub cat srt by blast
  then show ?thesis using srt by blast
qed

section \<open>Properties of the indexed search\<close>

lemma posting_loop_inv:
  "distinct uids \<Longrightarrow> set uids = dom sc \<Longrightarrow>
   distinct (snd (posting_loop (sc, uids) ids))
   \<and> set (snd (posting_loop (sc, uids) ids)) = dom (fst (posting_loop (sc, uids) ids))"
proof (induction ids arbitrary: sc uids)
  case Nil
  then show ?case by simp
next
  case (Cons i ids)
  show ?case
  proof (cases "sc i")
    case None
    then have "i \<notin> set uids" using Cons.prems(2) by auto
    then have a: "distinct (uids @ [i])" and b: "set (uids @ [i]) = dom (sc(i \<mapsto> score sc i + 1))"
      using Cons.prems by auto
    have step: "posting_loop (sc, uids) (i # ids)
               = posting_loop (sc(i \<mapsto> score sc i + 1), uids @ [i]) ids"
      using None by simp
    show ?thesis
      unfolding step by (rule Cons.IH [OF a b])
  next
    case (Some n)
    then have b: "set uids = dom (sc(i \<mapsto> score sc i + 1))"
      using Cons.prems(2) by auto
    have step: "posting_loop (sc, uids) (i # ids)
               = posting_loop (sc(i \<mapsto> score sc i + 1), uids) ids"
      using Some by simp
    show ?thesis
      unfolding step by (rule Cons.IH [OF Cons.prems(1) b])
  qed
qed

lemma keyword_loop_inv:
  "distinct (snd st) \<Longrightarrow> set (snd st) = dom (fst st) \<Longrightarrow>
   distinct (snd (keyword_loop idx st kws))
   \<and> set (snd (keyword_loop idx st kws)) = dom (fst (keyword_loop idx st kws))"
proof (induction kws arbitrary: st)
  case Nil
  then show ?case by simp
next
  case (Cons kw kws)
  obtain sc uids where st: "st = (sc, uids)" by (cases st)
  have "distinct (snd (posting_loop st (idx kw)))
        \<and> set (snd (posting_loop st (idx kw))) = dom (fst (posting_loop st (idx kw)))"
    using posting_loop_inv [of uids sc "idx kw"] Cons.prems st by simp
  then show ?case
    using Cons.IH [of "posting_loop st (idx kw)"] by simp
qed

lemma posting_loop_score:
  "score (fst (posting_loop (sc, uids) ids)) i = score sc i + int (count_list ids i)"
  by (induction ids arbitrary: sc uids) (auto simp: score_def)

lemma keyword_loop_score:
  "score (fst (keyword_loop idx st kws)) i
     = score (fst st) i + (\<Sum>kw\<leftarrow>kws. int (count_list (idx kw) i))"
proof (induction kws arbitrary: st)
  case Nil
  then show ?case by simp
next
  case (Cons kw kws)
  obtain sc uids where st: "st = (sc, uids)" by (cases st)
  show ?case
    using Cons.IH [of "posting_loop st (idx kw)"] posting_loop_score [of sc uids "idx kw" i]
    by (simp add: st)
qed

lemma ISearch_uniqueIDs_distinct: "distinct (ISearch_uniqueIDs s kws)"
  using keyword_loop_inv [of "(Map.empty, [])" "index s" kws]
  by (simp add: ISearch_uniqueIDs_def)

lemma ISearch_scores_sum:
  "score (ISearch_scores s kws) i = (\<Sum>kw\<leftarrow>kws. int (count_list (index s kw) i))"
  using keyword_loop_score [of "index s" "(Map.empty, [])" kws i]
  by (simp add: ISearch_scores_def score_def)

lemma ISearch_comics_distinct:
  "distinct (map ID table) \<Longrightarrow> distinct (map ID (ISearch_comics s kws table))"
proof -
  assume d: "distinct (map ID table)"
  have "map ID (ISearch_comics s kws table)
        = filter (\<lambda>i. i \<in> set (ISearch_uniqueIDs s kws)) (map ID table)"
    by (simp add: ISearch_comics_def filter_map comp_def Comic_of_def)
  then show ?thesis using d by simp
qed


lemma insertionSort_score_less_post:
  "sort_Slice_post (score_less scores) comics (insertionSort (score_less scores) comics)"
  by (rule insertionSort_post) (auto simp: score_less_def)

text \<open>
  C10. Let \<open>ISearch\<close> be called with a non-empty phrase and a positive limit on any index,
  let the words service return \<open>kws\<close>, let the store be the Postgres adapter over a table
  whose ids are pairwise distinct (\<^verbatim>\<open>id BIGINT PRIMARY KEY\<close>), and let \<^verbatim>\<open>sort.Slice\<close> keep
  its promise on the rows fetched. Then \<open>ISearch\<close> returns a list in which every comic id
  occurs at most once; the id list handed to the store has no duplicates; and the score of
  an id is the number of its occurrences in the posting lists of the keywords, one
  keyword after the other. Insertion sort keeps the promise on every input.
\<close>

theorem ISearch_ids_unique:
  assumes phrase: "phrase \<noteq> []" and limit: "0 < limit"
    and norm: "words_Norm s phrase = Inr kws"
    and store: "db s = pg_DB table" and key: "distinct (map ID table)"
    and srt: "sort_Slice_post (score_less (ISearch_scores s kws)) (ISearch_comics s kws table)
                (sort_Slice (score_less (ISearch_scores s kws)) (ISearch_comics s kws table))"
  shows "(\<exists>sorted. ISearch sort_Slice s phrase limit = Inr (take (nat limit) sorted)
            \<and> mset sorted = mset (ISearch_comics s kws table)
            \<and> distinct (map ID (take (nat limit) sorted)))
         \<and> distinct (ISearch_uniqueIDs s kws)
         \<and> (\<forall>i. score (ISearch_scores s kws) i
                   = (\<Sum>kw\<leftarrow>kws. int (count_list (index s kw) i)))
         \<and> sort_Slice_post (score_less (ISearch_scores s kws)) (ISearch_comics s kws table)
              (insertionSort (score_less (ISearch_scores s kws)) (ISearch_comics s kws table))"
proof -
  let ?scores = "ISearch_scores s kws"
  let ?comics = "ISearch_comics s kws table"
  let ?sorted = "sort_Slice (score_less ?scores) ?comics"
  have ms: "mset ?sorted = mset ?comics"
    using srt by (simp add: sort_Slice_post_def)
  have len: "length ?sorted = length ?comics"
    using ms by (rule mset_eq_length)
  have "mset (map ID ?sorted) = mset (map ID ?comics)"
    using ms by simp
  then have "distinct (map ID ?sorted)"
    using ISearch_comics_distinct [OF key, of s kws] mset_eq_imp_distinct_iff by blast
  then have d: "distinct (map ID (take (nat limit) ?sorted))"
    by (simp add: take_map [symmetric])
  have take_eq: "take (nat (min (int (length ?comics)) limit)) ?sorted = take (nat limit) ?sorted"
    using len limit by (cases "int (length ?comics) \<le> limit") (simp_all add: min_def)
  obtain sc uids where kl: "keyword_loop (index s) (Map.empty, []) kws = (sc, uids)"
    by (cases "keyword_loop (index s) (Map.empty, []) kws")
  have sc: "sc = ?scores" and uids: "uids = ISearch_uniqueIDs s kws"
    using kl by (simp_all add: ISearch_scores_def ISearch_uniqueIDs_def)
  have get: "GetComicsByIds (db s) uids = Inr ?comics"
    by (simp add: store pg_DB_def ISearch_comics_def uids)
  have "ISearch sort_Slice s phrase limit = Inr (take (nat limit) ?sorted)"
    using phrase limit take_eq
    by (simp add: ISearch_def norm kl get Let_def sc)
  then show ?thesis
    using ms d ISearch_uniqueIDs_distinct ISearch_scores_sum insertionSort_score_less_post
    by blast
qed

lemmas S4_defs = service_S4_def catalog_S4_def index_S4_def pg_DB_def Comic_of_def

theorem ISearch_ids_unique_witness:
  "ISearch insertionSort (service_S4\<lparr>index := index_S4\<rparr>) ''test phrase is unknown'' 10 =
     Inr [\<lparr>ID = 2, URL = ''url2''\<rparr>, \<lparr>ID = 1, URL = ''url1''\<rparr>, \<lparr>ID = 3, URL = ''url3''\<rparr>]
   \<and> ISearch_uniqueIDs (service_S4\<lparr>index := index_S4\<rparr>)
         [''test'', ''phrase'', ''is'', ''unknown''] = [1, 2, 3]
   \<and> map (score (ISearch_scores (service_S4\<lparr>index := index_S4\<rparr>)
                  [''test'', ''phrase'', ''is'', ''unknown''])) [1, 2, 3] = [2, 3, 1]"
proof -
  let ?s = "service_S4\<lparr>index := index_S4\<rparr>"
  let ?kws = "[''test'', ''phrase'', ''is'', ''unknown'']"
  have phrase: "''test phrase is unknown'' \<noteq> []" by simp
  have limit: "(0::int) < 10" by simp
  have norm: "words_Norm ?s ''test phrase is unknown'' = Inr ?kws"
    by (simp add: service_S4_def)
  have store: "db ?s = pg_DB catalog_S4" by (simp add: service_S4_def)
  have key: "distinct (map ID catalog_S4)" by (simp add: catalog_S4_def)
  have uids: "ISearch_uniqueIDs ?s ?kws = [1, 2, 3]"
    by (simp add: ISearch_uniqueIDs_def S4_defs score_def)
  have scores: "map (score (ISearch_scores ?s ?kws)) [1, 2, 3] = [2, 3, 1]"
    by (simp add: ISearch_scores_def S4_defs score_def)
  have run: "ISearch insertionSort ?s ''test phrase is unknown'' 10 =
     Inr [\<lparr>ID = 2, URL = ''url2''\<rparr>, \<lparr>ID = 1, URL = ''url1''\<rparr>, \<lparr>ID = 3, URL = ''url3''\<rparr>]"
    by (simp add: ISearch_def S4_defs score_def score_less_def insertionSort_def)
  have srt: "sort_Slice_post (score_less (ISearch_scores ?s ?kws)) (ISearch_comics ?s ?kws catalog_S4)
               (insertionSort (score_less (ISearch_scores ?s ?kws)) (ISearch_comics ?s ?kws catalog_S4))"
    by (rule insertionSort_score_less_post)
  show ?thesis
    using run uids scores
      ISearch_ids_unique [where sort_Slice = insertionSort, OF phrase limit norm store key srt]
    by blast
qed

section \<open>Properties of the updater\<close>

lemma published_append: "published (a @ b) = published a @ published b"
  by (induction a rule: published.induct) simp_all

lemma added_append: "added (a @ b) = added a @ added b"
  by (induction a rule: added.induct) simp_all

lemma fetched_append: "fetched (a @ b) = fetched a @ fetched b"
  by (induction a rule: fetched.induct) simp_all

lemma worker_quiet: "published (snd (worker s job)) = [] \<and> added (snd (worker s job)) = []"
  by (simp add: worker_def split: sum.splits)

lemma concat_quiet:
  "published (concat (map (\<lambda>job. snd (worker s job)) jobs)) = []
   \<and> added (concat (map (\<lambda>job. snd (worker s job)) jobs)) = []"
  by (induction jobs) (simp_all add: published_append added_append worker_quiet)

lemma workers_trace_quiet:
  "published (Update_workers_trace s IDs lastID) = []"
  "added (Update_workers_trace s IDs lastID) = []"
  by (simp_all add: Update_workers_trace_def concat_quiet)

lemma exists_of_eq: "exists_of IDs = (\<lambda>ident. ident \<in> set IDs)"
proof -
  have "\<And>m0. fold (\<lambda>ident m. m(ident := True)) IDs m0 = (\<lambda>i. i \<in> set IDs \<or> m0 i)"
    by (induction IDs) (auto simp: fun_eq_iff)
  then show ?thesis by (simp add: exists_of_def)
qed

lemma Update_reached:
  assumes "db_IDs s = Inr IDs" "xkcd_LastID s = Inr lastID" "chans_made s lastID"
  shows "Update_body arrival s =
     (let comics = Update_comics arrival s IDs lastID;
          fetching = [Call_IDs, Log LevelDebug ''existing comics in DB'', Call_LastID,
                      Log LevelDebug ''last comics ID in XKCD'']
                     @ Update_workers_trace s IDs lastID
      in if comics = [] then (None, fetching @ [Log LevelDebug ''no new comics to add''])
         else (case db_Add s comics of
                 Some err \<Rightarrow>
                   (Some (Wrap ''failed to add comics'' err),
                    fetching @ [Call_Add comics, Log LevelError ''failed to add comics''])
               | None \<Rightarrow>
                   (None,
                    fetching @
                    [Call_Add comics, Log LevelDebug ''added new comics'',
                     Call_Publish EventUpdate] @
                    (case publisher_Publish s EventUpdate of
                       Some err \<Rightarrow> [Log LevelError ''failed to publish'']
                     | None \<Rightarrow> []))))"
  using assms by (simp add: Update_body_def chans_made_def Let_def split: option.splits)

lemma Update_reached_published:
  assumes "db_IDs s = Inr IDs" "xkcd_LastID s = Inr lastID" "chans_made s lastID"
  shows "published (trace (Update arrival s False)) =
           (if Update_comics arrival s IDs lastID \<noteq> []
               \<and> db_Add s (Update_comics arrival s IDs lastID) = None
            then [EventUpdate] else [])"
  by (simp add: Update_def Update_reached [OF assms] Let_def published_append
        workers_trace_quiet split: option.splits)

lemma Update_reached_added:
  assumes "db_IDs s = Inr IDs" "xkcd_LastID s = Inr lastID" "chans_made s lastID"
  shows "added (trace (Update arrival s False)) =
           (if Update_comics arrival s IDs lastID \<noteq> []
            then [Update_comics arrival s IDs lastID] else [])"
  by (simp add: Update_def Update_reached [OF assms] Let_def added_append
        workers_trace_quiet split: option.splits)

lemma Update_reached_ret:
  assumes "db_IDs s = Inr IDs" "xkcd_LastID s = Inr lastID" "chans_made s lastID"
  shows "ret (Update arrival s False) =
           (if Update_comics arrival s IDs lastID = [] then None
            else map_option (Wrap ''failed to add comics'')
                   (db_Add s (Update_comics arrival s IDs lastID)))"
  by (simp add: Update_def Update_reached [OF assms] Let_def split: option.splits)

lemma Update_publish_failure_logged:
  assumes "db_IDs s = Inr IDs" "xkcd_LastID s = Inr lastID" "chans_made s lastID"
    and "Update_comics arrival s IDs lastID \<noteq> []"
    and "db_Add s (Update_comics arrival s IDs lastID) = None"
    and "publisher_Publish s EventUpdate = Some err"
  shows "Log LevelError ''failed to publish'' \<in> set (trace (Update arrival s False))"
  using assms(4-) by (simp add: Update_def Update_reached [OF assms(1-3)] Let_def)

lemma Update_not_reached:
  assumes "(\<exists>e. db_IDs s = Inl e) \<or> (\<exists>e. xkcd_LastID s = Inl e)"
  shows "published (trace (Update arrival s False)) = []
         \<and> added (trace (Update arrival s False)) = []
         \<and> ret (Update arrival s False) \<noteq> None"
  using assms by (auto simp: Update_def Update_body_def split: sum.splits)

lemma Update_panic:
  assumes "db_IDs s = Inr IDs" "xkcd_LastID s = Inr lastID" "\<not> chans_made s lastID"
  shows "published (trace (Update arrival s False)) = []
         \<and> added (trace (Update arrival s False)) = []
         \<and> fetched (trace (Update arrival s False)) = []
         \<and> (\<exists>msg. ret (Update arrival s False) = Some (Panic msg))"
proof -
  have "lastID < 0 \<or> lastID > makechan_max
        \<or> (\<not> (lastID < 0 \<or> lastID > makechan_max) \<and> lastID > chan_limit s)"
    using assms(3) by (auto simp: chans_made_def)
  then show ?thesis
    using assms(1,2) by (auto simp: Update_def Update_body_def Let_def)
qed

lemma fetched_worker: "fetched (snd (worker s job)) = (if job = 404 then [] else [job])"
  by (simp add: worker_def split: sum.splits)

lemma fetched_workers_trace:
  "fetched (Update_workers_trace s IDs lastID) = filter (\<lambda>job. job \<noteq> 404) (Update_jobs IDs lastID)"
proof -
  have "\<And>jobs. fetched (concat (map (\<lambda>job. snd (worker s job)) jobs))
                 = filter (\<lambda>job. job \<noteq> 404) jobs"
  proof -
    fix jobs
    show "fetched (concat (map (\<lambda>job. snd (worker s job)) jobs))
            = filter (\<lambda>job. job \<noteq> 404) jobs"
      by (induction jobs) (simp_all add: fetched_append fetched_worker)
  qed
  then show ?thesis by (simp add: Update_workers_trace_def)
qed

lemma Update_reached_fetched:
  assumes "db_IDs s = Inr IDs" "xkcd_LastID s = Inr lastID" "chans_made s lastID"
  shows "fetched (trace (Update arrival s False))
           = filter (\<lambda>job. job \<noteq> 404) (Update_jobs IDs lastID)"
  by (simp add: Update_def Update_reached [OF assms] Let_def fetched_append
        fetched_workers_trace split: option.splits)

lemma map_filter_set: "set (List.map_filter (\<lambda>r. r) rs) = {c. Some c \<in> set rs}"
  by (induction rs) (auto simp: List.map_filter_def)

lemma tombstone_collected:
  assumes jobs: "404 \<in> set (Update_jobs IDs lastID)"
    and perm: "mset (arrival (map (\<lambda>job. fst (worker s job)) (Update_jobs IDs lastID)))
                 = mset (map (\<lambda>job. fst (worker s job)) (Update_jobs IDs lastID))"
  shows "\<lparr>ID_upd = 404, URL_upd = [], Words_upd = []\<rparr>
           \<in> set (Update_comics arrival s IDs lastID)"
proof -
  let ?rs = "map (\<lambda>job. fst (worker s job)) (Update_jobs IDs lastID)"
  have "fst (worker s 404) = Some \<lparr>ID_upd = 404, URL_upd = [], Words_upd = []\<rparr>"
    by (simp add: worker_def)
  then have "Some \<lparr>ID_upd = 404, URL_upd = [], Words_upd = []\<rparr> \<in> set ?rs"
    using jobs by force
  moreover have "set (arrival ?rs) = set ?rs"
    using perm by (rule mset_eq_setD)
  ultimately show ?thesis
    by (simp add: Update_comics_def map_filter_set)
qed

text \<open>
  C7. A worker that receives the id 404 sends the entry with id 404, empty url and no
  words, and makes no call at all. For any other id whose fetch fails with not-found, the
  worker sends \<^verbatim>\<open>nil\<close> after the one fetch. When \<open>Update\<close> reaches its workers (the stored
  ids and the last id are read and the two channels are made), the ids fetched are the
  submitted ids other than 404, each once and in no fixed order; the entry for a submitted
  404 is among the collected comics whatever the order of arrival; and the result of
  \<open>Update\<close> is success when nothing was collected and otherwise what the batch insert
  returns: no error of a fetch reaches it. When the channels cannot be made, nothing is
  fetched.
\<close>

theorem worker_tombstone_and_skip:
  "worker s 404 = (Some \<lparr>ID_upd = 404, URL_upd = [], Words_upd = []\<rparr>, [])
   \<and> (\<forall>ident e. ident \<noteq> 404 \<longrightarrow> xkcd_Get s ident = Inl e \<longrightarrow> errors_Is e ErrNotFound \<longrightarrow>
          worker s ident = (None, [Call_Get ident, Log LevelDebug ''comic not found'']))
   \<and> (\<forall>IDs lastID. db_IDs s = Inr IDs \<longrightarrow> xkcd_LastID s = Inr lastID \<longrightarrow>
          chans_made s lastID \<longrightarrow>
          mset (fetched (trace (Update arrival s False)))
            = mset (filter (\<lambda>job. job \<noteq> 404) (Update_jobs IDs lastID))
          \<and> ret (Update arrival s False) =
              (if Update_comics arrival s IDs lastID = [] then None
               else map_option (Wrap ''failed to add comics'')
                      (db_Add s (Update_comics arrival s IDs lastID)))
          \<and> (404 \<in> set (Update_jobs IDs lastID) \<longrightarrow>
               mset (arrival (map (\<lambda>job. fst (worker s job)) (Update_jobs IDs lastID)))
                 = mset (map (\<lambda>job. fst (worker s job)) (Update_jobs IDs lastID)) \<longrightarrow>
               \<lparr>ID_upd = 404, URL_upd = [], Words_upd = []\<rparr>
                 \<in> set (Update_comics arrival s IDs lastID)))
   \<and> (\<forall>IDs lastID. db_IDs s = Inr IDs \<longrightarrow> xkcd_LastID s = Inr lastID \<longrightarrow>
          \<not> chans_made s lastID \<longrightarrow>
          fetched (trace (Update arrival s False)) = [])"
proof -
  have a: "worker s 404 = (Some \<lparr>ID_upd = 404, URL_upd = [], Words_upd = []\<rparr>, [])"
    by (simp add: worker_def)
  have b: "\<forall>ident e. ident \<noteq> 404 \<longrightarrow> xkcd_Get s ident = Inl e \<longrightarrow> errors_Is e ErrNotFound \<longrightarrow>
          worker s ident = (None, [Call_Get ident, Log LevelDebug ''comic not found''])"
    by (simp add: worker_def)
  have c: "\<forall>IDs lastID. db_IDs s = Inr IDs \<longrightarrow> xkcd_LastID s = Inr lastID \<longrightarrow>
          chans_made s lastID \<longrightarrow>
          mset (fetched (trace (Update arrival s False)))
            = mset (filter (\<lambda>job. job \<noteq> 404) (Update_jobs IDs lastID))"
    using Update_reached_fetched [of s _ _ arrival] by simp
  have d: "\<forall>IDs lastID. db_IDs s = Inr IDs \<longrightarrow> xkcd_LastID s = Inr lastID \<longrightarrow>
          \<not> chans_made s lastID \<longrightarrow>
          fetched (trace (Update arrival s False)) = []"
    using Update_panic [of s _ _ arrival] by blast
  show ?thesis
    using a b c d Update_reached_ret tombstone_collected by blast
qed

lemma jobs_tombstone: "Update_jobs [1..402] 405 = [403, 404, 405]"
proof -
  have "[1..405] = [1..402] @ [403, 404, 405]"
    using upto_split2 [of 1 402 405] by (simp add: upto_rec1)
  moreover have "filter (\<lambda>ident. ident \<notin> set [1..402]) [1..402] = []"
    by (simp add: filter_empty_conv)
  ultimately show ?thesis
    by (simp add: Update_jobs_def exists_of_eq)
qed

theorem worker_tombstone_and_skip_witness:
  "worker service_tombstone 404 = (Some \<lparr>ID_upd = 404, URL_upd = [], Words_upd = []\<rparr>, [])
   \<and> worker service_tombstone 403 = (None, [Call_Get 403, Log LevelDebug ''comic not found''])
   \<and> chans_made service_tombstone 405
   \<and> mset (fetched (trace (Update rev service_tombstone False))) = {#403, 405#}
   \<and> Update_comics rev service_tombstone [1..402] 405
       = [\<lparr>ID_upd = 404, URL_upd = [], Words_upd = []\<rparr>]
   \<and> ret (Update rev service_tombstone False) = None"
proof -
  have ids: "db_IDs service_tombstone = Inr [1..402]"
    and last: "xkcd_LastID service_tombstone = Inr 405"
    and get: "xkcd_Get service_tombstone 403 = Inl ErrNotFound"
    and add: "\<And>comics. db_Add service_tombstone comics = None"
    by (simp_all add: service_tombstone_def)
  have comics: "Update_comics rev service_tombstone [1..402] 405
       = [\<lparr>ID_upd = 404, URL_upd = [], Words_upd = []\<rparr>]"
    by (simp add: Update_comics_def jobs_tombstone worker_def service_tombstone_def
          List.map_filter_def)
  have nf: "errors_Is ErrNotFound ErrNotFound" by simp
  have made: "chans_made service_tombstone 405"
    by (simp add: chans_made_def makechan_max_def service_tombstone_def)
  show ?thesis
    using worker_tombstone_and_skip [of service_tombstone rev] ids last get add comics nf made
    by (simp add: jobs_tombstone)
qed

text \<open>
  C8. When \<open>Update\<close> reaches its workers (the stored ids and the last id are read and the
  two channels are made), it publishes the update event (once) exactly when the collected
  comics are not empty and the batch insert succeeded; with no collected comic it returns
  success and neither inserts nor publishes; after a successful insert it returns
  success, and a failing publish leaves an error line in the log. When \<open>Update\<close> stops
  earlier (the stored ids or the last id cannot be read, the channels cannot be made, or
  the flag is taken) it neither inserts nor publishes.
\<close>

theorem Update_publishes_iff_inserted:
  "(\<forall>IDs lastID. db_IDs s = Inr IDs \<longrightarrow> xkcd_LastID s = Inr lastID \<longrightarrow> chans_made s lastID \<longrightarrow>
      published (trace (Update arrival s False)) =
        (if Update_comics arrival s IDs lastID \<noteq> []
            \<and> db_Add s (Update_comics arrival s IDs lastID) = None
         then [EventUpdate] else [])
      \<and> added (trace (Update arrival s False)) =
          (if Update_comics arrival s IDs lastID \<noteq> []
           then [Update_comics arrival s IDs lastID] else [])
      \<and> ret (Update arrival s False) =
          (if Update_comics arrival s IDs lastID = [] then None
           else map_option (Wrap ''failed to add comics'')
                  (db_Add s (Update_comics arrival s IDs lastID)))
      \<and> (\<forall>err. Update_comics arrival s IDs lastID \<noteq> [] \<longrightarrow>
             db_Add s (Update_comics arrival s IDs lastID) = None \<longrightarrow>
             publisher_Publish s EventUpdate = Some err \<longrightarrow>
             Log LevelError ''failed to publish'' \<in> set (trace (Update arrival s False))))
   \<and> ((\<exists>e. db_IDs s = Inl e) \<or> (\<exists>e. xkcd_LastID s = Inl e) \<or>
        (\<exists>IDs lastID. db_IDs s = Inr IDs \<and> xkcd_LastID s = Inr lastID \<and> \<not> chans_made s lastID) \<longrightarrow>
        published (trace (Update arrival s False)) = []
        \<and> added (trace (Update arrival s False)) = [])
   \<and> published (trace (Update arrival s True)) = []
   \<and> added (trace (Update arrival s True)) = []"
proof -
  have busy: "published (trace (Update arrival s True)) = []
              \<and> added (trace (Update arrival s True)) = []"
    by (simp add: Update_def)
  have early: "(\<exists>e. db_IDs s = Inl e) \<or> (\<exists>e. xkcd_LastID s = Inl e) \<or>
        (\<exists>IDs lastID. db_IDs s = Inr IDs \<and> xkcd_LastID s = Inr lastID \<and> \<not> chans_made s lastID) \<longrightarrow>
        published (trace (Update arrival s False)) = []
        \<and> added (trace (Update arrival s False)) = []"
    using Update_not_reached [of s arrival] Update_panic [of s _ _ arrival] by blast
  have reached: "\<forall>IDs lastID. db_IDs s = Inr IDs \<longrightarrow> xkcd_LastID s = Inr lastID \<longrightarrow> chans_made s lastID \<longrightarrow>
      published (trace (Update arrival s False)) =
        (if Update_comics arrival s IDs lastID \<noteq> []
            \<and> db_Add s (Update_comics arrival s IDs lastID) = None
         then [EventUpdate] else [])
      \<and> added (trace (Update arrival s False)) =
          (if Update_comics arrival s IDs lastID \<noteq> []
           then [Update_comics arrival s IDs lastID] else [])
      \<and> ret (Update arrival s False) =
          (if Update_comics arrival s IDs lastID = [] then None
           else map_option (Wrap ''failed to add comics'')
                  (db_Add s (Update_comics arrival s IDs lastID)))
      \<and> (\<forall>err. Update_comics arrival s IDs lastID \<noteq> [] \<longrightarrow>
             db_Add s (Update_comics arrival s IDs lastID) = None \<longrightarrow>
             publisher_Publish s EventUpdate = Some err \<longrightarrow>
             Log LevelError ''failed to publish'' \<in> set (trace (Update arrival s False)))"
  proof (intro allI impI conjI)
    fix IDs lastID
    assume h: "db_IDs s = Inr IDs" "xkcd_LastID s = Inr lastID" "chans_made s lastID"
    show "published (trace (Update arrival s False)) =
        (if Update_comics arrival s IDs lastID \<noteq> []
            \<and> db_Add s (Update_comics arrival s IDs lastID) = None
         then [EventUpdate] else [])"
      by (rule Update_reached_published [OF h])
    show "added (trace (Update arrival s False)) =
          (if Update_comics arrival s IDs lastID \<noteq> []
           then [Update_comics arrival s IDs lastID] else [])"
      by (rule Update_reached_added [OF h])
    show "ret (Update arrival s False) =
          (if Update_comics arrival s IDs lastID = [] then None
           else map_option (Wrap ''failed to add comics'')
                  (db_Add s (Update_comics arrival s IDs lastID)))"
      by (rule Update_reached_ret [OF h])
    fix err
    assume "Update_comics arrival s IDs lastID \<noteq> []"
      "db_Add s (Update_comics arrival s IDs lastID) = None"
      "publisher_Publish s EventUpdate = Some err"
    then show "Log LevelError ''failed to publish'' \<in> set (trace (Update arrival s False))"
      by (rule Update_publish_failure_logged [OF h])
  qed
  show ?thesis
    using reached early busy by blast
qed

theorem Update_publishes_iff_inserted_witness:
  "chans_made service_publish_error 1
   \<and> Update_comics (\<lambda>rs. rs) service_publish_error [] 1
       = [\<lparr>ID_upd = 1, URL_upd = [], Words_upd = [''test'']\<rparr>]
   \<and> published (trace (Update (\<lambda>rs. rs) service_publish_error False)) = [EventUpdate]
   \<and> added (trace (Update (\<lambda>rs. rs) service_publish_error False))
       = [[\<lparr>ID_upd = 1, URL_upd = [], Words_upd = [''test'']\<rparr>]]
   \<and> ret (Update (\<lambda>rs. rs) service_publish_error False) = None
   \<and> Log LevelError ''failed to publish''
       \<in> set (trace (Update (\<lambda>rs. rs) service_publish_error False))
   \<and> \<not> chans_made service_huge_last (2 ^ 63 - 1)
   \<and> ret (Update (\<lambda>rs. rs) service_huge_last False)
       = Some (Panic ''makechan: size out of range'')
   \<and> published (trace (Update (\<lambda>rs. rs) service_huge_last False)) = []
   \<and> added (trace (Update (\<lambda>rs. rs) service_huge_last False)) = []
   \<and> fetched (trace (Update (\<lambda>rs. rs) service_huge_last False)) = []"
proof -
  have ids: "db_IDs service_publish_error = Inr []"
    and last: "xkcd_LastID service_publish_error = Inr 1"
    and add: "\<And>comics. db_Add service_publish_error comics = None"
    and pub: "publisher_Publish service_publish_error EventUpdate
                = Some (ErrOther ''publish error'')"
    by (simp_all add: service_publish_error_def)
  have made: "chans_made service_publish_error 1"
    by (simp add: chans_made_def makechan_max_def service_publish_error_def)
  have comics: "Update_comics (\<lambda>rs. rs) service_publish_error [] 1
     = [\<lparr>ID_upd = 1, URL_upd = [], Words_upd = [''test'']\<rparr>]"
    by (simp add: Update_comics_def Update_jobs_def exists_of_def worker_def
          service_publish_error_def List.map_filter_def)
  have first: "published (trace (Update (\<lambda>rs. rs) service_publish_error False)) = [EventUpdate]
     \<and> added (trace (Update (\<lambda>rs. rs) service_publish_error False))
         = [[\<lparr>ID_upd = 1, URL_upd = [], Words_upd = [''test'']\<rparr>]]
     \<and> ret (Update (\<lambda>rs. rs) service_publish_error False) = None
     \<and> Log LevelError ''failed to publish''
         \<in> set (trace (Update (\<lambda>rs. rs) service_publish_error False))"
    using Update_publishes_iff_inserted [of service_publish_error "\<lambda>rs. rs"]
      ids last add pub comics made
    by simp
  have hids: "db_IDs service_huge_last = Inr [1, 2]"
    and hlast: "xkcd_LastID service_huge_last = Inr (2 ^ 63 - 1)"
    by (simp_all add: service_huge_last_def service_S5_def)
  have unmade: "\<not> chans_made service_huge_last (2 ^ 63 - 1)"
    by (simp add: chans_made_def makechan_max_def)
  have hret: "ret (Update (\<lambda>rs. rs) service_huge_last False)
       = Some (Panic ''makechan: size out of range'')"
    and hfetched: "fetched (trace (Update (\<lambda>rs. rs) service_huge_last False)) = []"
    by (simp_all add: Update_def Update_body_def hids hlast makechan_max_def)
  have hquiet: "published (trace (Update (\<lambda>rs. rs) service_huge_last False)) = []
     \<and> added (trace (Update (\<lambda>rs. rs) service_huge_last False)) = []"
    using Update_publishes_iff_inserted [of service_huge_last "\<lambda>rs. rs"] hids hlast unmade
    by blast
  show ?thesis
    using made comics first unmade hret hfetched hquiet by simp
qed

lemma errors_Is_NotFound_only:
  "errors_Is e ErrNotFound \<Longrightarrow>
     \<not> errors_Is e ErrServiceUnavailable \<and> \<not> errors_Is e ErrAlreadyExists"
  by (induction e) auto

text \<open>
  C9 as stated fails: when the upstream reports not-found for the last id, the error
  returned by \<open>Update\<close> wraps \<open>ErrNotFound\<close>; it is not a service-unavailable error.
\<close>

theorem Update_last_id_not_found_counterexample:
  "\<not> (\<forall>arrival s IDs e. db_IDs s = Inr IDs \<longrightarrow> xkcd_LastID s = Inl e \<longrightarrow>
          errors_Is e ErrNotFound \<longrightarrow>
          (\<exists>err. ret (Update arrival s False) = Some err \<and> errors_Is err ErrServiceUnavailable))"
proof
  assume "\<forall>arrival s IDs e. db_IDs s = Inr IDs \<longrightarrow> xkcd_LastID s = Inl e \<longrightarrow>
          errors_Is e ErrNotFound \<longrightarrow>
          (\<exists>err. ret (Update arrival s False) = Some err \<and> errors_Is err ErrServiceUnavailable)"
  then have "db_IDs service_no_last = Inr [1] \<longrightarrow> xkcd_LastID service_no_last = Inl ErrNotFound \<longrightarrow>
          errors_Is ErrNotFound ErrNotFound \<longrightarrow>
          (\<exists>err. ret (Update (\<lambda>rs. rs) service_no_last False) = Some err
                 \<and> errors_Is err ErrServiceUnavailable)"
    by blast
  then show False
    by (simp add: service_no_last_def Update_def Update_body_def)
qed

text \<open>
  C9 (amended). If the stored ids were read and the query for the upstream's last id
  reports not-found, \<open>Update\<close> returns that error wrapped under ``failed to get last comic
  from xkcd API'': it is a not-found error and not a service-unavailable one, the gRPC
  adapter reports it as \<open>Internal\<close> and the gateway answers 500. Nothing is inserted, no
  event is published, and the flag is released.
\<close>

theorem Update_last_id_not_found:
  assumes ids: "db_IDs s = Inr IDs" and last: "xkcd_LastID s = Inl e"
    and nf: "errors_Is e ErrNotFound"
  shows "ret (Update arrival s False)
           = Some (Wrap ''failed to get last comic from xkcd API'' e)
         \<and> errors_Is (Wrap ''failed to get last comic from xkcd API'' e) ErrNotFound
         \<and> \<not> errors_Is (Wrap ''failed to get last comic from xkcd API'' e) ErrServiceUnavailable
         \<and> Server_Update (ret (Update arrival s False)) = Internal
         \<and> UpdateHandler (Client_Update (Server_Update (ret (Update arrival s False)))) = 500
         \<and> added (trace (Update arrival s False)) = []
         \<and> published (trace (Update arrival s False)) = []
         \<and> flag (Update arrival s False) = False"
proof -
  have r: "ret (Update arrival s False)
           = Some (Wrap ''failed to get last comic from xkcd API'' e)"
    by (simp add: Update_def Update_body_def ids last)
  have no: "\<not> errors_Is e ErrServiceUnavailable" "\<not> errors_Is e ErrAlreadyExists"
    using errors_Is_NotFound_only [OF nf] by simp_all
  have quiet: "added (trace (Update arrival s False)) = []"
    "published (trace (Update arrival s False)) = []"
    using Update_not_reached [of s arrival] last by blast+
  have fl: "flag (Update arrival s False) = False"
    by (simp add: Update_def)
  show ?thesis
    unfolding r using nf no quiet [unfolded r] fl
    by (simp add: Server_Update_def Client_Update_def UpdateHandler_def)
qed

theorem Update_last_id_not_found_witness:
  "ret (Update (\<lambda>rs. rs) service_no_last False)
     = Some (Wrap ''failed to get last comic from xkcd API'' ErrNotFound)
   \<and> Server_Update (ret (Update (\<lambda>rs. rs) service_no_last False)) = Internal
   \<and> UpdateHandler (Client_Update (Server_Update (ret (Update (\<lambda>rs. rs) service_no_last False))))
       = 500
   \<and> added (trace (Update (\<lambda>rs. rs) service_no_last False)) = []
   \<and> published (trace (Update (\<lambda>rs. rs) service_no_last False)) = []"
proof -
  have ids: "db_IDs service_no_last = Inr [1]"
    and last: "xkcd_LastID service_no_last = Inl ErrNotFound"
    by (simp_all add: service_no_last_def)
  have nf: "errors_Is ErrNotFound ErrNotFound" by simp
  show ?thesis
    using Update_last_id_not_found [OF ids last nf, of "\<lambda>rs. rs"] by blast
qed

subsection \<open>Mutual exclusion\<close>

lemma filter_update_length:
  "i < length xs \<Longrightarrow>
   length (filter P (xs[i := y])) + (if P (xs ! i) then 1 else 0)
     = length (filter P xs) + (if P y then 1 else 0)"
proof (induction xs arbitrary: i)
  case Nil
  then show ?case by simp
next
  case (Cons x xs)
  show ?case
  proof (cases i)
    case 0
    then show ?thesis by simp
  next
    case (Suc j)
    then have "j < length xs" using Cons.prems by simp
    then show ?thesis using Cons.IH [of j] Suc by simp
  qed
qed

lemma step_inv: "flag_inv u \<Longrightarrow> flag_inv (step u a)"
proof (cases a)
  case (Arrive opn)
  assume "flag_inv u"
  then show ?thesis using Arrive by (simp add: flag_inv_def in_flight_def)
next
  case (CompareAndSwap i)
  assume inv: "flag_inv u"
  show ?thesis
  proof (cases "i < length (calls u) \<and> snd (calls u ! i) = Called")
    case False
    then show ?thesis using inv CompareAndSwap by auto
  next
    case True
    show ?thesis
    proof (cases "inProgress u")
      case busy: True
      have "length (filter (\<lambda>c. snd c = Running)
                ((calls u)[i := (fst (calls u ! i), Returned (Some ErrAlreadyExists))]))
            = length (filter (\<lambda>c. snd c = Running) (calls u))"
        using filter_update_length [of i "calls u" "\<lambda>c. snd c = Running"
                "(fst (calls u ! i), Returned (Some ErrAlreadyExists))"] True
        by simp
      then show ?thesis
        using inv True busy CompareAndSwap by (simp add: flag_inv_def in_flight_def)
    next
      case idle: False
      have "length (filter (\<lambda>c. snd c = Running) ((calls u)[i := (fst (calls u ! i), Running)]))
            = length (filter (\<lambda>c. snd c = Running) (calls u)) + 1"
        using filter_update_length [of i "calls u" "\<lambda>c. snd c = Running"
                "(fst (calls u ! i), Running)"] True
        by simp
      then show ?thesis
        using inv True idle CompareAndSwap by (simp add: flag_inv_def in_flight_def)
    qed
  qed
next
  case (Return i r)
  assume inv: "flag_inv u"
  show ?thesis
  proof (cases "i < length (calls u) \<and> snd (calls u ! i) = Running")
    case False
    then show ?thesis using inv Return by auto
  next
    case True
    have eq: "length (filter (\<lambda>c. snd c = Running) ((calls u)[i := (fst (calls u ! i), Returned r)])) + 1
            = length (filter (\<lambda>c. snd c = Running) (calls u))"
      using filter_update_length [of i "calls u" "\<lambda>c. snd c = Running"
              "(fst (calls u ! i), Returned r)"] True
      by simp
    then have "0 < in_flight u" unfolding in_flight_def by linarith
    then have "inProgress u" "in_flight u = 1"
      using inv by (auto simp: flag_inv_def split: if_splits)
    then show ?thesis
      using eq True Return by (simp add: flag_inv_def in_flight_def)
  qed
qed

lemma run_snoc: "run (acts @ [a]) = step (run acts) a"
  by (simp add: run_def)

lemma run_inv: "flag_inv (run acts)"
proof (induction acts rule: rev_induct)
  case Nil
  then show ?case by (simp add: run_def flag_inv_def in_flight_def)
next
  case (snoc a acts)
  then show ?case by (simp add: run_snoc step_inv)
qed

text \<open>
  C2. In every state reached by any interleaving of arriving calls, compare-and-swaps and
  returns, at most one call of \<open>Update\<close> or \<open>Drop\<close> is running, and the flag is set
  exactly when one is. A call whose compare-and-swap finds the flag set has returned
  \<open>ErrAlreadyExists\<close> by that very step (it does not wait), and a return clears the flag.
  On the functions themselves: called with the flag set, \<open>Update\<close> and \<open>Drop\<close> return
  \<open>ErrAlreadyExists\<close> with an empty trace (no call on the store or anything else) and
  leave the flag set; called with the flag clear, they end with the flag clear.
\<close>

theorem Update_Drop_mutually_exclusive:
  "in_flight (run acts) \<le> 1
   \<and> inProgress (run acts) = (in_flight (run acts) = 1)
   \<and> (\<forall>u i. i < length (calls u) \<longrightarrow> snd (calls u ! i) = Called \<longrightarrow> inProgress u \<longrightarrow>
         step u (CompareAndSwap i)
           = u\<lparr>calls := (calls u)[i := (fst (calls u ! i), Returned (Some ErrAlreadyExists))]\<rparr>)
   \<and> (\<forall>u i r. i < length (calls u) \<longrightarrow> snd (calls u ! i) = Running \<longrightarrow>
         inProgress (step u (Return i r)) = False)
   \<and> Update arrival s True = \<lparr>ret = Some ErrAlreadyExists, trace = [], flag = True\<rparr>
   \<and> Drop s True = \<lparr>ret = Some ErrAlreadyExists, trace = [], flag = True\<rparr>
   \<and> flag (Update arrival s False) = False
   \<and> flag (Drop s False) = False"
proof -
  have "in_flight (run acts) \<le> 1" "inProgress (run acts) = (in_flight (run acts) = 1)"
    using run_inv [of acts] by (simp_all add: flag_inv_def split: if_splits)
  moreover have "flag (Drop s False) = False"
    by (simp add: Drop_def split: option.splits)
  ultimately show ?thesis
    by (simp add: Update_def Drop_def)
qed

theorem Update_Drop_mutually_exclusive_witness:
  "run [Arrive OpUpdate, Arrive OpDrop, CompareAndSwap 0, CompareAndSwap 1, Return 0 None,
        Arrive OpDrop, CompareAndSwap 2, Arrive OpUpdate, CompareAndSwap 3]
     = \<lparr>inProgress = True,
        calls = [(OpUpdate, Returned None), (OpDrop, Returned (Some ErrAlreadyExists)),
                 (OpDrop, Running), (OpUpdate, Returned (Some ErrAlreadyExists))]\<rparr>
   \<and> in_flight (run [Arrive OpUpdate, Arrive OpDrop, CompareAndSwap 0, CompareAndSwap 1,
        Return 0 None, Arrive OpDrop, CompareAndSwap 2, Arrive OpUpdate, CompareAndSwap 3]) = 1
   \<and> ret (Drop service_S5 True) = Some ErrAlreadyExists
   \<and> trace (Drop service_S5 True) = []"
proof -
  let ?acts = "[Arrive OpUpdate, Arrive OpDrop, CompareAndSwap 0, CompareAndSwap 1,
        Return 0 None, Arrive OpDrop, CompareAndSwap 2, Arrive OpUpdate, CompareAndSwap 3]"
  have r: "run ?acts
     = \<lparr>inProgress = True,
        calls = [(OpUpdate, Returned None), (OpDrop, Returned (Some ErrAlreadyExists)),
                 (OpDrop, Running), (OpUpdate, Returned (Some ErrAlreadyExists))]\<rparr>"
    by (simp add: run_def)
  have "inProgress (run ?acts) = (in_flight (run ?acts) = 1)"
    and d: "Drop service_S5 True = \<lparr>ret = Some ErrAlreadyExists, trace = [], flag = True\<rparr>"
    using Update_Drop_mutually_exclusive [of ?acts "\<lambda>rs. rs" service_S5] by blast+
  then have "in_flight (run ?acts) = 1"
    unfolding r by simp
  then show ?thesis using r d by simp
qed

section \<open>Properties of the rate limiter\<close>

lemmas limiter_defs =
  tokensAt_def tokensFromDuration_def durationFromTokens_def Duration_of_def Sub_def
  MaxInt64_def MinInt64_def MaxFloat64_def wait_delay_def done_by_def done_before_def
  limiter_used_def ctx_cancelled_def ctx_background_def

lemma wait_by_delay:
  "wait rl ctx now =
     (if done_by ctx now then (Some (Err ctx), rl)
      else if (case Deadline ctx of None \<Rightarrow> False
               | Some deadline \<Rightarrow> now + wait_delay rl now > deadline)
      then (Some (ErrOther ''rate: Wait would exceed context deadline''),
            rl\<lparr>rl_tokens := tokensAt rl now, rl_last := now\<rparr>)
      else if wait_delay rl now \<le> 0
      then (None, rl\<lparr>rl_tokens := tokensAt rl now - 1, rl_last := now\<rparr>)
      else if done_before ctx (now + wait_delay rl now)
      then (Some (Err ctx), rl\<lparr>rl_tokens := tokensAt rl now - 1, rl_last := now\<rparr>)
      else (None, rl\<lparr>rl_tokens := tokensAt rl now - 1, rl_last := now\<rparr>))"
proof -
  have e: "(if rl_tokens (rl\<lparr>rl_tokens := tokensAt rl now, rl_last := now\<rparr>) - 1 < 0
            then durationFromTokens (rl_limit rl)
                   (- (rl_tokens (rl\<lparr>rl_tokens := tokensAt rl now, rl_last := now\<rparr>) - 1))
            else 0)
           = wait_delay rl now"
    by (simp add: wait_delay_def Let_def)
  show ?thesis
    unfolding wait_def Let_def e by (cases "Deadline ctx") simp_all
qed

lemma wait_sleeping:
  assumes "cancelled_while_sleeping rl ctx now"
  shows "wait rl ctx now
           = (Some (Err ctx), rl\<lparr>rl_tokens := tokensAt rl now - 1, rl_last := now\<rparr>)"
proof -
  have nd: "\<not> done_by ctx now" and pos: "0 < wait_delay rl now"
    and db: "done_before ctx (now + wait_delay rl now)"
    and dl: "(case Deadline ctx of None \<Rightarrow> True
              | Some deadline \<Rightarrow> now + wait_delay rl now \<le> deadline)"
    using assms by (simp_all add: cancelled_while_sleeping_def)
  have ok: "\<not> (case Deadline ctx of None \<Rightarrow> False
               | Some deadline \<Rightarrow> now + wait_delay rl now > deadline)"
    using dl by (cases "Deadline ctx") simp_all
  show ?thesis
    unfolding wait_by_delay using nd pos db ok by simp
qed

lemma wait_done:
  assumes "done_by ctx now"
  shows "wait rl ctx now = (Some (Err ctx), rl)"
  using assms by (simp add: wait_def)

lemma wait_deadline:
  assumes "\<not> done_by ctx now" "Deadline ctx = Some deadline" "now + wait_delay rl now > deadline"
  shows "wait rl ctx now
           = (Some (ErrOther ''rate: Wait would exceed context deadline''),
              rl\<lparr>rl_tokens := tokensAt rl now, rl_last := now\<rparr>)"
  unfolding wait_by_delay using assms by simp

text \<open>
  C3 as stated fails: \<open>wait\<close> writes the decremented token count before it sleeps and
  never puts the token back. After a request cancelled in its sleep, a request arriving
  one second later finds the bucket one token lower than if the cancelled request had
  never been made.
\<close>

theorem wait_bucket_restored_counterexample:
  "\<not> (\<forall>rl ctx now t. cancelled_while_sleeping rl ctx now \<longrightarrow> now \<le> t \<longrightarrow>
         fst (Limit_handler rl ctx now 200) = 408
         \<and> tokensAt (snd (wait rl ctx now)) t = tokensAt rl t)"
proof
  assume "\<forall>rl ctx now t. cancelled_while_sleeping rl ctx now \<longrightarrow> now \<le> t \<longrightarrow>
         fst (Limit_handler rl ctx now 200) = 408
         \<and> tokensAt (snd (wait rl ctx now)) t = tokensAt rl t"
  then have "cancelled_while_sleeping limiter_used ctx_cancelled 0 \<longrightarrow> (0::int) \<le> 1000000000 \<longrightarrow>
      tokensAt (snd (wait limiter_used ctx_cancelled 0)) 1000000000
        = tokensAt limiter_used 1000000000"
    by blast
  moreover have "cancelled_while_sleeping limiter_used ctx_cancelled 0"
    by (simp add: cancelled_while_sleeping_def limiter_defs)
  moreover have "wait limiter_used ctx_cancelled 0
      = (Some (ErrOther ''context canceled''),
         \<lparr>rl_limit = 1, rl_burst = 1, rl_tokens = - 1, rl_last = 0\<rparr>)"
    by (simp add: wait_def limiter_defs)
  ultimately show False
    by (simp add: limiter_defs)
qed

text \<open>
  C3 (amended). A request whose context is cancelled while \<open>wait\<close> sleeps fails with the
  context's error and status 408, and its token stays taken: the bucket is left at the
  refreshed count less one. A request refused before sleeping also gets 408 and takes no
  token: the bucket is untouched when the context is already done, and only refreshed
  when the wait would pass the deadline.
\<close>

theorem wait_cancelled_keeps_token_taken:
  "(cancelled_while_sleeping rl ctx now \<longrightarrow>
      wait rl ctx now
        = (Some (Err ctx), rl\<lparr>rl_tokens := tokensAt rl now - 1, rl_last := now\<rparr>)
      \<and> fst (Limit_handler rl ctx now next_status) = 408)
   \<and> (done_by ctx now \<longrightarrow>
        wait rl ctx now = (Some (Err ctx), rl)
        \<and> fst (Limit_handler rl ctx now next_status) = 408)
   \<and> (\<forall>deadline. \<not> done_by ctx now \<longrightarrow> Deadline ctx = Some deadline \<longrightarrow>
        now + wait_delay rl now > deadline \<longrightarrow>
        wait rl ctx now
          = (Some (ErrOther ''rate: Wait would exceed context deadline''),
             rl\<lparr>rl_tokens := tokensAt rl now, rl_last := now\<rparr>)
        \<and> fst (Limit_handler rl ctx now next_status) = 408)"
proof (intro conjI impI allI)
  assume a: "cancelled_while_sleeping rl ctx now"
  show "wait rl ctx now
        = (Some (Err ctx), rl\<lparr>rl_tokens := tokensAt rl now - 1, rl_last := now\<rparr>)"
    by (rule wait_sleeping [OF a])
  show "fst (Limit_handler rl ctx now next_status) = 408"
    by (simp add: Limit_handler_def wait_sleeping [OF a])
next
  assume a: "done_by ctx now"
  show "wait rl ctx now = (Some (Err ctx), rl)"
    by (rule wait_done [OF a])
  show "fst (Limit_handler rl ctx now next_status) = 408"
    by (simp add: Limit_handler_def wait_done [OF a])
next
  fix deadline
  assume a: "\<not> done_by ctx now" "Deadline ctx = Some deadline"
    "now + wait_delay rl now > deadline"
  show "wait rl ctx now
          = (Some (ErrOther ''rate: Wait would exceed context deadline''),
             rl\<lparr>rl_tokens := tokensAt rl now, rl_last := now\<rparr>)"
    by (rule wait_deadline [OF a])
  show "fst (Limit_handler rl ctx now next_status) = 408"
    by (simp add: Limit_handler_def wait_deadline [OF a])
qed

theorem wait_cancelled_keeps_token_taken_witness:
  "cancelled_while_sleeping limiter_used ctx_cancelled 0
   \<and> wait limiter_used ctx_cancelled 0
       = (Some (ErrOther ''context canceled''),
          \<lparr>rl_limit = 1, rl_burst = 1, rl_tokens = - 1, rl_last = 0\<rparr>)
   \<and> fst (Limit_handler limiter_used ctx_cancelled 0 200) = 408
   \<and> wait_delay (snd (wait limiter_used ctx_cancelled 0)) 1000000000 = 1000000000
   \<and> wait_delay limiter_used 1000000000 = 0"
proof -
  have c: "cancelled_while_sleeping limiter_used ctx_cancelled 0"
    by (simp add: cancelled_while_sleeping_def limiter_defs)
  have w: "wait limiter_used ctx_cancelled 0
       = (Some (ErrOther ''context canceled''),
          \<lparr>rl_limit = 1, rl_burst = 1, rl_tokens = - 1, rl_last = 0\<rparr>)"
    and h: "fst (Limit_handler limiter_used ctx_cancelled 0 200) = 408"
    using c wait_cancelled_keeps_token_taken [of limiter_used ctx_cancelled 0 200]
    by (simp_all add: limiter_defs)
  have d1: "wait_delay (snd (wait limiter_used ctx_cancelled 0)) 1000000000 = 1000000000"
    unfolding w by (simp add: limiter_defs)
  have d2: "wait_delay limiter_used 1000000000 = 0"
    by (simp add: limiter_defs)
  show ?thesis using c w h d1 d2 by simp
qed

end
